theory Spec2Isabelle
  imports Main "HOL-Library.Sublist"
begin

section \<open>Text primitives of the headline parser\<close>

text \<open>
  The parser of \<^verbatim>\<open>avherald_scraper.py\<close> works on Python strings. A string is
  modelled as a \<^typ>\<open>string\<close>, a list of 8-bit characters holding the UTF-8 encoding of
  the text. The character classes used by the source (\<^verbatim>\<open>str.isspace\<close>,
  \<^verbatim>\<open>str.isalpha\<close>, \<^verbatim>\<open>str.isdigit\<close>, \<^verbatim>\<open>str.lower\<close> and the regex classes
  \<^verbatim>\<open>\s\<close>, \<^verbatim>\<open>\d\<close>, \<^verbatim>\<open>\w\<close>) are modelled on the ASCII range, where
  they coincide with Python's; a byte above 127 belongs to none of the classes and is left
  unchanged by lower-casing.
\<close>

definition WHITESPACE :: "char list" where
  "WHITESPACE = [CHR 0x20, CHR 0x09, CHR 0x0A, CHR 0x0B, CHR 0x0C, CHR 0x0D,
                 CHR 0x1C, CHR 0x1D, CHR 0x1E, CHR 0x1F]"

definition LOWERCASE :: "char list" where
  "LOWERCASE = ''abcdefghijklmnopqrstuvwxyz''"

definition UPPERCASE :: "char list" where
  "UPPERCASE = ''ABCDEFGHIJKLMNOPQRSTUVWXYZ''"

definition DIGITS :: "char list" where
  "DIGITS = ''0123456789''"

definition is_space :: "char \<Rightarrow> bool" where
  "is_space c = (c \<in> set WHITESPACE)"

definition is_digit :: "char \<Rightarrow> bool" where
  "is_digit c = (c \<in> set DIGITS)"

definition is_lower :: "char \<Rightarrow> bool" where
  "is_lower c = (c \<in> set LOWERCASE)"

definition is_upper :: "char \<Rightarrow> bool" where
  "is_upper c = (c \<in> set UPPERCASE)"

definition is_alpha :: "char \<Rightarrow> bool" where
  "is_alpha c = (is_lower c \<or> is_upper c)"

text \<open>The regex class \<^verbatim>\<open>\w\<close>: letters, digits and the underscore.\<close>

definition is_word :: "char \<Rightarrow> bool" where
  "is_word c = (is_alpha c \<or> is_digit c \<or> c = CHR ''_'')"

definition lower_char :: "char \<Rightarrow> char" where
  "lower_char c = (case map_of (zip UPPERCASE LOWERCASE) c of Some d \<Rightarrow> d | None \<Rightarrow> c)"

text \<open>\<^verbatim>\<open>str.lower()\<close>.\<close>

definition lower :: "string \<Rightarrow> string" where
  "lower s = map lower_char s"

text \<open>\<^verbatim>\<open>s.strip(chars)\<close>: drops the characters of \<open>chars\<close> from both ends.\<close>

definition strip_chars :: "char list \<Rightarrow> string \<Rightarrow> string" where
  "strip_chars chars s =
     rev (dropWhile (\<lambda>c. c \<in> set chars) (rev (dropWhile (\<lambda>c. c \<in> set chars) s)))"

text \<open>\<^verbatim>\<open>s.strip()\<close>: drops whitespace from both ends.\<close>

definition strip :: "string \<Rightarrow> string" where
  "strip s = strip_chars WHITESPACE s"

text \<open>
  \<^verbatim>\<open>s.split()\<close>: the maximal runs of non-whitespace characters. \<open>cur\<close> is the
  token being read.
\<close>

fun split_ws_from :: "string \<Rightarrow> string \<Rightarrow> string list" where
  "split_ws_from cur [] = (if cur = [] then [] else [cur])"
| "split_ws_from cur (c # cs) =
     (if is_space c then (if cur = [] then split_ws_from [] cs else cur # split_ws_from [] cs)
      else split_ws_from (cur @ [c]) cs)"

definition split_ws :: "string \<Rightarrow> string list" where
  "split_ws s = split_ws_from [] s"

text \<open>\<^verbatim>\<open>sep.join(parts)\<close>.\<close>

fun join :: "string \<Rightarrow> string list \<Rightarrow> string" where
  "join sep [] = []"
| "join sep [x] = x"
| "join sep (x # y # ys) = x @ sep @ join sep (y # ys)"

text \<open>
  \<^verbatim>\<open>s.replace(old, "")\<close>: one pass from the left that deletes each occurrence of
  \<open>old\<close> it meets and goes on behind it. With an empty \<open>old\<close> Python inserts the
  (empty) replacement between the characters, which leaves \<open>s\<close> as it is.
\<close>

fun remove_from :: "string \<Rightarrow> string \<Rightarrow> string" where
  "remove_from old [] = []"
| "remove_from old (c # cs) =
     (if prefix old (c # cs) then remove_from old (drop (length old - 1) cs)
      else c # remove_from old cs)"

definition replace_with_empty :: "string \<Rightarrow> string \<Rightarrow> string" where
  "replace_with_empty old s = (if old = [] then s else remove_from old s)"

text \<open>\<^verbatim>\<open>old in s\<close> for strings: \<open>old\<close> occurs in \<open>s\<close> as a substring.\<close>

fun occurs_in :: "string \<Rightarrow> string \<Rightarrow> bool" where
  "occurs_in old [] = (old = [])"
| "occurs_in old (c # cs) = (prefix old (c # cs) \<or> occurs_in old cs)"

text \<open>The decimal numeral of a natural number, as an f-string prints it.\<close>

definition digit_char :: "nat \<Rightarrow> char" where
  "digit_char d = DIGITS ! d"

function show_nat :: "nat \<Rightarrow> string" where
  "show_nat n = (if n < 10 then [digit_char n] else show_nat (n div 10) @ [digit_char (n mod 10)])"
  by pat_completeness auto
termination
  by (relation "measure id") auto

declare show_nat.simps [simp del]

section \<open>Aircraft catalog and keyword tables\<close>

text \<open>\<^verbatim>\<open>AIRCRAFT_MODEL_NAMES\<close> of \<^verbatim>\<open>aircraft_models.py\<close>.\<close>

definition AIRCRAFT_MODEL_NAMES :: "string list" where
  "AIRCRAFT_MODEL_NAMES = [
    ''A318'', ''A319'', ''A319neo'', ''A320'', ''A320neo'', ''A321'', ''A321neo'',
    ''A20N'', ''A21N'', ''A220'', ''A220-100'', ''A220-300'', ''A221'', ''A223'',
    ''A300'', ''A300-600'', ''A306'', ''A310'', ''A330'', ''A330-200'', ''A330-300'',
    ''A330-800'', ''A330-900'', ''A332'', ''A333'', ''A338'', ''A339'',
    ''A340'', ''A340-200'', ''A340-300'', ''A340-500'', ''A340-600'',
    ''A342'', ''A343'', ''A345'', ''A346'',
    ''A350'', ''A350-900'', ''A350-1000'', ''A359'', ''A35K'',
    ''A380'', ''A380-800'', ''A388'',
    ''B707'', ''B712'', ''B717'', ''B720'', ''B721'', ''B722'', ''B727'',
    ''B731'', ''B732'', ''B733'', ''B734'', ''B735'', ''B736'', ''B737'',
    ''B737-200'', ''B737-300'', ''B737-400'', ''B737-500'', ''B737-600'',
    ''B737-700'', ''B737-800'', ''B737-900'',
    ''B738'', ''B739'', ''B73H'', ''B73M'', ''B37M'', ''B38M'', ''B39M'',
    ''B741'', ''B742'', ''B743'', ''B744'', ''B747-200'', ''B747-300'', ''B747-400'',
    ''B747-8'', ''B748'',
    ''B752'', ''B753'', ''B757-200'', ''B757-300'',
    ''B762'', ''B763'', ''B764'', ''B767-200'', ''B767-300'', ''B767-400'',
    ''B772'', ''B773'', ''B77L'', ''B77W'', ''B777-200'', ''B777-300'',
    ''B788'', ''B789'', ''B78X'', ''B787-8'', ''B787-9'', ''B787-10'',
    ''DC8'', ''DC-8'', ''DC9'', ''DC-9'', ''DC10'', ''DC-10'',
    ''MD10'', ''MD11'',
    ''MD80'', ''MD81'', ''MD82'', ''MD83'', ''MD87'', ''MD88'', ''MD90'',
    ''ERJ135'', ''ERJ140'', ''ERJ145'',
    ''E135'', ''E140'', ''E145'',
    ''E170'', ''E175'', ''E190'', ''E195'',
    ''E170-E2'', ''E190-E2'', ''E195-E2'',
    ''EMB-110'', ''EMB110'', ''EMB-120'', ''EMB120'',
    ''CRJ1'', ''CRJ2'', ''CRJ-200'', ''CRJ7'', ''CRJ-700'', ''CRJ9'', ''CRJ-900'',
    ''CRJ10'', ''CRJ-1000'', ''CRJX'',
    ''DHC-6'', ''DHC-7'', ''DHC-8'',
    ''DH8A'', ''DH8B'', ''DH8C'', ''DH8D'',
    ''Q100'', ''Q200'', ''Q300'', ''Q400'',
    ''ATR 42'', ''ATR-42'', ''ATR42'',
    ''ATR 72'', ''ATR-72'', ''ATR72'',
    ''AT45'', ''AT46'', ''AT72'', ''AT75'', ''AT76'',
    ''F27'', ''F28'', ''F50'', ''F70'', ''F100'',
    ''BAE 146'', ''BAE-146'', ''RJ70'', ''RJ85'', ''RJ100'',
    ''Avro RJ85'', ''Avro RJ100'',
    ''SF34'', ''SAAB 340'', ''SAAB 2000'',
    ''Do 228'', ''Do 328'', ''Dornier 228'', ''Dornier 328'', ''328JET'',
    ''SH33'', ''SH36'', ''Short 330'', ''Short 360'',
    ''BE20'', ''BE30'', ''BE35'', ''BE36'', ''BE99'', ''B190'', ''B200'',
    ''C152'', ''C172'', ''C182'', ''C185'', ''C188'',
    ''C206'', ''C208'', ''C210'', ''C310'', ''C340'', ''C402'', ''C404'',
    ''C414'', ''C421'', ''C425'', ''C441'',
    ''PA-23'', ''PA-28'', ''PA-31'', ''PA-34'', ''PA-42'', ''PA-46'',
    ''PC-6'', ''PC-7'', ''PC-9'', ''PC-12'', ''PC12'',
    ''SR20'', ''SR22'',
    ''DA40'', ''DA42'', ''DA62'',
    ''TBM700'', ''TBM-700'', ''TBM850'', ''TBM900'',
    ''AS350'', ''AS355'', ''EC120'', ''EC130'', ''EC135'', ''EC145'',
    ''EC155'', ''EC175'', ''EC225'',
    ''BK117'', ''BO105'',
    ''B212'', ''B412'', ''B429'',
    ''S61'', ''S76'', ''S92'',
    ''AW109'', ''AW139'', ''AW169'', ''AW189'',
    ''UH-60'', ''S-70'',
    ''AN2'', ''AN12'', ''AN24'', ''AN26'', ''AN28'', ''AN30'', ''AN32'',
    ''AN72'', ''AN124'', ''AN140'', ''AN148'',
    ''IL18'', ''IL62'', ''IL76'', ''IL86'', ''IL96'',
    ''TU134'', ''TU154'', ''TU204'',
    ''Yak-40'', ''Yak-42'',
    ''Superjet 100'', ''SSJ100'',
    ''MA60'', ''MA600'', ''ARJ21'', ''C919'',
    ''BN2'', ''BN-2'', ''Islander'', ''Trislander'',
    ''JS31'', ''JS32'', ''JS41'',
    ''L410'', ''Let 410'',
    ''Metro III'', ''Metro 23'', ''SW3'', ''SW4'',
    ''King Air'', ''Twin Otter'', ''Grand Caravan'']"

text \<open>\<^verbatim>\<open>AIRCRAFT_KEYWORDS\<close>.\<close>

definition AIRCRAFT_KEYWORDS :: "string list" where
  "AIRCRAFT_KEYWORDS = [
    ''aerospatiale'', ''agusta'', ''airbus'', ''airtractor'', ''antonov'', ''atr'', ''avro'',
    ''bae'', ''beechcraft'', ''bell'', ''boeing'', ''bombardier'', ''britten'', ''caravan'',
    ''cessna'', ''dash'', ''challenger'', ''cirrus'', ''citation'', ''comac'', ''crj'',
    ''dassault'', ''diamond'', ''dhc'', ''dornier'', ''douglas'', ''embraer'', ''falcon'',
    ''fairchild'', ''fokker'', ''gulfstream'', ''helicopter'', ''ilyushin'', ''learjet'',
    ''let'', ''lockheed'', ''mcdonnell'', ''mitsubishi'', ''mooney'', ''otter'', ''pilatus'',
    ''piper'', ''robinson'', ''saab'', ''sikorsky'', ''sukhoi'', ''superjet'', ''tecnam'',
    ''tupolev'', ''ultralight'', ''yakovlev'']"

text \<open>\<^verbatim>\<open>AIRCRAFT_MULTIWORD_PATTERNS\<close>.\<close>

definition AIRCRAFT_MULTIWORD_PATTERNS :: "string list list" where
  "AIRCRAFT_MULTIWORD_PATTERNS =
     [[''king'', ''air''], [''twin'', ''otter''], [''grand'', ''caravan''],
      [''britten'', ''norman'']]"

text \<open>\<^verbatim>\<open>_AIRCRAFT_MODEL_MAX_TOKENS\<close>.\<close>

definition AIRCRAFT_MODEL_MAX_TOKENS :: nat where
  "AIRCRAFT_MODEL_MAX_TOKENS = 6"

text \<open>\<^verbatim>\<open>AIRCRAFT_STOPWORDS\<close>.\<close>

definition AIRCRAFT_STOPWORDS :: "string list" where
  "AIRCRAFT_STOPWORDS = [
    ''enroute'', ''en-route'', ''inflight'', ''taxi'', ''taxiing'', ''departing'',
    ''departed'', ''arrival'', ''arriving'', ''landing'', ''takeoff'', ''take-off'',
    ''climbed'', ''descending'', ''descended'', ''without'', ''with'', ''after'',
    ''before'', ''during'', ''from'', ''to'', ''over'', ''near'', ''at'', ''on'', ''while'',
    ''when'', ''and'', ''due'', ''because'', ''following'', ''shortly'', ''short'',
    ''long'', ''approach'', ''runway'', ''stand'', ''gate'']"

text \<open>\<^verbatim>\<open>SECONDARY_TITLE_PREFIX\<close>: an opening bracket and the UTF-8 bytes of the two
  CJK characters U+6807 and U+8BB0.\<close>

definition SECONDARY_TITLE_PREFIX :: string where
  "SECONDARY_TITLE_PREFIX =
     [CHR ''['', CHR 0xE6, CHR 0xA0, CHR 0x87, CHR 0xE8, CHR 0xAE, CHR 0xB0]"

text \<open>\<^verbatim>\<open>_TOKEN_STRIP_CHARS\<close>.\<close>

definition TOKEN_STRIP_CHARS :: "char list" where
  "TOKEN_STRIP_CHARS = '' ,.;()/[]{}''"

definition UNKNOWN :: string where
  "UNKNOWN = ''Unknown''"

section \<open>Token normalizer\<close>

text \<open>\<^verbatim>\<open>_normalize_aircraft_token\<close>.\<close>

definition normalize_aircraft_token :: "string \<Rightarrow> string" where
  "normalize_aircraft_token token = strip_chars TOKEN_STRIP_CHARS token"

text \<open>\<^verbatim>\<open>_normalize_model_key\<close>: lower-case, then delete what is not in \<^verbatim>\<open>[a-z0-9]\<close>.\<close>

definition normalize_model_key :: "string \<Rightarrow> string" where
  "normalize_model_key text = filter (\<lambda>c. is_lower c \<or> is_digit c) (lower text)"

text \<open>
  \<^verbatim>\<open>_AIRCRAFT_MODEL_LOOKUP\<close>: the dictionary from normalized key to catalog name; a later
  name overwrites an earlier one with the same key.
\<close>

definition AIRCRAFT_MODEL_LOOKUP :: "string \<rightharpoonup> string" where
  "AIRCRAFT_MODEL_LOOKUP =
     map_of (rev (map (\<lambda>name. (normalize_model_key name, name)) AIRCRAFT_MODEL_NAMES))"

text \<open>The keys of the dictionary, in catalog order.\<close>

definition AIRCRAFT_MODEL_KEYS :: "string list" where
  "AIRCRAFT_MODEL_KEYS = map normalize_model_key AIRCRAFT_MODEL_NAMES"

text \<open>\<^verbatim>\<open>key in _AIRCRAFT_MODEL_LOOKUP\<close>.\<close>

definition in_model_lookup :: "string \<Rightarrow> bool" where
  "in_model_lookup key = (AIRCRAFT_MODEL_LOOKUP key \<noteq> None)"

text \<open>\<^verbatim>\<open>_tokens_are_manufacturers\<close>.\<close>

fun all_manufacturers :: "string list \<Rightarrow> bool" where
  "all_manufacturers [] = True"
| "all_manufacturers (token # tokens) =
     (let stripped = lower (normalize_aircraft_token token)
      in if stripped = [] \<or> stripped \<notin> set AIRCRAFT_KEYWORDS then False
         else all_manufacturers tokens)"

definition tokens_are_manufacturers :: "string list \<Rightarrow> bool" where
  "tokens_are_manufacturers tokens = (if tokens = [] then False else all_manufacturers tokens)"

section \<open>Aircraft boundary detector\<close>

text \<open>\<^verbatim>\<open>_token_matches_aircraft\<close>.\<close>

definition token_matches_aircraft :: "string \<Rightarrow> bool" where
  "token_matches_aircraft token =
     (if token = [] then False
      else if lower token \<in> set AIRCRAFT_KEYWORDS then True
      else let alphanumeric = filter (\<lambda>c. is_alpha c \<or> is_digit c) token
           in if length alphanumeric < 3 then False
              else list_ex is_alpha alphanumeric \<and> list_ex is_digit alphanumeric)"

text \<open>
  \<^verbatim>\<open>_match_known_aircraft_tokens\<close>: the loop \<^verbatim>\<open>for length in range(max_len, 0, -1)\<close>
  is the recursion on the length.
\<close>

fun match_known_from :: "string list \<Rightarrow> string list \<Rightarrow> nat \<Rightarrow> string list option" where
  "match_known_from raw_tokens sanitized_tokens 0 = None"
| "match_known_from raw_tokens sanitized_tokens (Suc n) =
     (let segment = take (Suc n) sanitized_tokens
      in if \<not> list_all (\<lambda>t. t \<noteq> []) segment
         then match_known_from raw_tokens sanitized_tokens n
         else if in_model_lookup (normalize_model_key (join '' '' segment))
         then Some (take (Suc n) raw_tokens)
         else match_known_from raw_tokens sanitized_tokens n)"

definition match_known_aircraft_tokens :: "string list \<Rightarrow> string list option" where
  "match_known_aircraft_tokens raw_tokens =
     (let sanitized_tokens = map normalize_aircraft_token raw_tokens;
          max_len = min (length sanitized_tokens) AIRCRAFT_MODEL_MAX_TOKENS
      in match_known_from raw_tokens sanitized_tokens max_len)"

text \<open>Python's truth value of the result: \<^verbatim>\<open>None\<close> and the empty list are false.\<close>

definition truthy :: "string list option \<Rightarrow> bool" where
  "truthy r = (case r of None \<Rightarrow> False | Some xs \<Rightarrow> xs \<noteq> [])"

text \<open>
  \<^verbatim>\<open>_find_aircraft_start_by_model\<close>: \<open>find_model_from idx ts\<close> is the loop at index
  \<open>idx\<close>, with \<open>ts\<close> the slice \<^verbatim>\<open>raw_tokens[idx:]\<close>.
\<close>

fun find_model_from :: "nat \<Rightarrow> string list \<Rightarrow> nat option" where
  "find_model_from idx [] = None"
| "find_model_from idx (t # ts) =
     (if truthy (match_known_aircraft_tokens (t # ts)) then Some idx
      else find_model_from (Suc idx) ts)"

definition find_aircraft_start_by_model :: "string list \<Rightarrow> nat option" where
  "find_aircraft_start_by_model raw_tokens = find_model_from 0 raw_tokens"

text \<open>
  The inner loop of the multi-word scan,
  \<^verbatim>\<open>for idx in range(len(lowered_tokens) - size + 1)\<close>, at index \<open>idx\<close> with
  \<open>ts\<close> the slice \<^verbatim>\<open>lowered_tokens[idx:]\<close>.
\<close>

fun find_window_from :: "string list \<Rightarrow> nat \<Rightarrow> string list \<Rightarrow> nat option" where
  "find_window_from pattern idx [] = (if pattern = [] then Some idx else None)"
| "find_window_from pattern idx (t # ts) =
     (if length (t # ts) < length pattern then None
      else if take (length pattern) (t # ts) = pattern then Some idx
      else find_window_from pattern (Suc idx) ts)"

text \<open>The outer loop, \<^verbatim>\<open>for pattern in AIRCRAFT_MULTIWORD_PATTERNS\<close>.\<close>

fun find_multiword :: "string list list \<Rightarrow> string list \<Rightarrow> nat option" where
  "find_multiword [] lowered_tokens = None"
| "find_multiword (pattern # patterns) lowered_tokens =
     (case find_window_from pattern 0 lowered_tokens of
        Some idx \<Rightarrow> Some idx
      | None \<Rightarrow> find_multiword patterns lowered_tokens)"

text \<open>The keyword scan, \<^verbatim>\<open>for idx, token in enumerate(stripped_tokens)\<close>.\<close>

fun find_keyword_from :: "nat \<Rightarrow> string list \<Rightarrow> nat option" where
  "find_keyword_from idx [] = None"
| "find_keyword_from idx (token # tokens) =
     (if token_matches_aircraft token then Some idx else find_keyword_from (Suc idx) tokens)"

text \<open>\<^verbatim>\<open>_find_aircraft_start_index\<close>.\<close>

definition find_aircraft_start_index ::
  "string list \<Rightarrow> string list \<Rightarrow> string list \<Rightarrow> nat option" where
  "find_aircraft_start_index raw_tokens stripped_tokens lowered_tokens =
     (case find_aircraft_start_by_model raw_tokens of
        Some model_index \<Rightarrow> Some model_index
      | None \<Rightarrow>
          (case find_multiword AIRCRAFT_MULTIWORD_PATTERNS lowered_tokens of
             Some idx \<Rightarrow> Some idx
           | None \<Rightarrow> find_keyword_from 0 stripped_tokens))"

section \<open>Trailing-word trimmer\<close>

text \<open>The loop of \<^verbatim>\<open>_trim_aircraft_tokens\<close>; \<open>trimmed\<close> is the list built so far.\<close>

fun trim_from :: "string list \<Rightarrow> string list \<Rightarrow> string list" where
  "trim_from trimmed [] = trimmed"
| "trim_from trimmed (token # tokens) =
     (let stripped = normalize_aircraft_token token;
          lowered = lower stripped
      in if stripped \<noteq> [] \<and> lowered \<in> set AIRCRAFT_STOPWORDS \<and> trimmed \<noteq> [] then trimmed
         else trim_from (trimmed @ [token]) tokens)"

text \<open>\<^verbatim>\<open>_trim_aircraft_tokens\<close>.\<close>

definition trim_aircraft_tokens :: "string list \<Rightarrow> string list" where
  "trim_aircraft_tokens raw_tokens =
     (if raw_tokens = [] then raw_tokens
      else let known_match = match_known_aircraft_tokens raw_tokens
           in if truthy known_match then the known_match
              else let trimmed = trim_from [] raw_tokens
                   in if trimmed \<noteq> [] then trimmed else raw_tokens)"

section \<open>Subject segmenter\<close>

text \<open>
  A case-insensitive literal of a regex at the head of the text; \<open>w\<close> is in lower case.
\<close>

definition ci_prefix :: "string \<Rightarrow> string \<Rightarrow> bool" where
  "ci_prefix w s = (length w \<le> length s \<and> lower (take (length w) s) = w)"

text \<open>
  \<^verbatim>\<open>SUBJECT_CONJUNCTION_REGEX\<close>, \<^verbatim>\<open>\s+(?:and|&)\s+\<close> without regard to case, matched
  at the head of the text: the length of the match. Both \<^verbatim>\<open>\s+\<close> take the whole run of
  whitespace, since a shorter run is followed by whitespace, where nothing else of the
  pattern matches.
\<close>

definition conjunction_match :: "string \<Rightarrow> nat option" where
  "conjunction_match s =
     (let ws1 = takeWhile is_space s;
          r1 = dropWhile is_space s;
          k = (if ci_prefix ''and'' r1 then 3 else if ci_prefix ''&'' r1 then 1 else 0);
          r2 = drop k r1;
          ws2 = takeWhile is_space r2
      in if ws1 = [] \<or> k = 0 \<or> ws2 = [] then None
         else Some (length ws1 + k + length ws2))"

text \<open>
  \<^verbatim>\<open>SUBJECT_CONJUNCTION_REGEX.split(subject)\<close>: the pieces between the successive matches,
  found from the left; \<open>cur\<close> is the piece being read.
\<close>

fun conjunction_split_from :: "string \<Rightarrow> string \<Rightarrow> string list" where
  "conjunction_split_from cur [] = [cur]"
| "conjunction_split_from cur (c # cs) =
     (case conjunction_match (c # cs) of
        Some n \<Rightarrow> cur # conjunction_split_from [] (drop (n - 1) cs)
      | None \<Rightarrow> conjunction_split_from (cur @ [c]) cs)"

text \<open>\<^verbatim>\<open>_split_subject_chunks\<close>.\<close>

definition split_subject_chunks :: "string \<Rightarrow> string list" where
  "split_subject_chunks subject =
     (if subject = [] then []
      else let chunks = conjunction_split_from [] subject
           in map (strip_chars '' ,;/'')
                (filter (\<lambda>chunk. chunk \<noteq> [] \<and> strip_chars '' ,;/'' chunk \<noteq> []) chunks))"

text \<open>
  \<^verbatim>\<open>LOCATION_SPLIT_REGEX\<close>, \<^verbatim>\<open>\b(?:at|near|over|enroute to|en route to)\b\<close> without
  regard to case. \<^verbatim>\<open>\b\<close> holds between two positions of which exactly one is a word
  character; the start and the end of the text count as non-word.
\<close>

definition LOCATION_WORDS :: "string list" where
  "LOCATION_WORDS = [''at'', ''near'', ''over'', ''enroute to'', ''en route to'']"

definition word_boundary :: "char option \<Rightarrow> char option \<Rightarrow> bool" where
  "word_boundary prev nxt =
     ((case prev of None \<Rightarrow> False | Some c \<Rightarrow> is_word c)
      \<noteq> (case nxt of None \<Rightarrow> False | Some c \<Rightarrow> is_word c))"

definition char_at :: "string \<Rightarrow> nat \<Rightarrow> char option" where
  "char_at s i = (if i < length s then Some (s ! i) else None)"

text \<open>One alternative of the pattern at the head of \<open>s\<close>, after the character \<open>prev\<close>.\<close>

definition location_word_match :: "char option \<Rightarrow> string \<Rightarrow> string \<Rightarrow> bool" where
  "location_word_match prev s w =
     (word_boundary prev (char_at s 0) \<and> ci_prefix w s \<and> w \<noteq> []
      \<and> word_boundary (char_at s (length w - 1)) (char_at s (length w)))"

text \<open>
  \<^verbatim>\<open>LOCATION_SPLIT_REGEX.search(text)\<close>, of which the source reads only
  \<^verbatim>\<open>match.start()\<close>: the first position where an alternative matches.
\<close>

fun location_search_from :: "char option \<Rightarrow> nat \<Rightarrow> string \<Rightarrow> nat option" where
  "location_search_from prev idx [] = None"
| "location_search_from prev idx (c # cs) =
     (if list_ex (location_word_match prev (c # cs)) LOCATION_WORDS then Some idx
      else location_search_from (Some c) (Suc idx) cs)"

definition location_search :: "string \<Rightarrow> nat option" where
  "location_search s = location_search_from None 0 s"

text \<open>\<^verbatim>\<open>_extract_subject_segment\<close>.\<close>

definition extract_subject_segment :: "string \<Rightarrow> string" where
  "extract_subject_segment clean_title =
     (if clean_title = [] then []
      else case location_search clean_title of
             Some start \<Rightarrow> strip (take start clean_title)
           | None \<Rightarrow> strip clean_title)"

section \<open>Chunk parser\<close>

text \<open>\<^verbatim>\<open>any(char.isalpha() for char in token)\<close>.\<close>

definition has_alpha :: "string \<Rightarrow> bool" where
  "has_alpha token = list_ex is_alpha token"

text \<open>
  The last two statements of \<^verbatim>\<open>_parse_subject_chunk\<close>: trim the aircraft tokens, join
  them, strip the punctuation, and fall back to the sentinel.
\<close>

definition aircraft_text :: "string list \<Rightarrow> string" where
  "aircraft_text aircraft_tokens =
     (let joined = strip_chars '' ,.;'' (join '' '' (trim_aircraft_tokens aircraft_tokens))
      in if joined \<noteq> [] then joined else UNKNOWN)"

text \<open>\<^verbatim>\<open>_parse_subject_chunk\<close>.\<close>

definition parse_subject_chunk :: "string \<Rightarrow> string \<times> string" where
  "parse_subject_chunk chunk =
     (let raw_tokens = split_ws chunk
      in if raw_tokens = [] then (UNKNOWN, UNKNOWN)
         else
           let stripped_tokens = map normalize_aircraft_token raw_tokens;
               lowered_tokens = map lower stripped_tokens
           in case find_aircraft_start_index raw_tokens stripped_tokens lowered_tokens of
                None \<Rightarrow> (UNKNOWN, strip chunk)
              | Some aircraft_start \<Rightarrow>
                  let airline_tokens = take aircraft_start raw_tokens;
                      manufacturer_prefix = tokens_are_manufacturers airline_tokens;
                      aircraft_tokens = drop aircraft_start raw_tokens
                  in if manufacturer_prefix
                     then (UNKNOWN, aircraft_text (airline_tokens @ aircraft_tokens))
                     else
                       let alpha_tokens = filter has_alpha airline_tokens;
                           airline = strip (join '' '' alpha_tokens);
                           numeric_prefix_tokens =
                             (if airline = [] then filter (\<lambda>t. \<not> has_alpha t) airline_tokens
                              else [])
                       in (if airline = [] then UNKNOWN else airline,
                           aircraft_text
                             (if numeric_prefix_tokens \<noteq> []
                              then numeric_prefix_tokens @ aircraft_tokens
                              else aircraft_tokens)))"

text \<open>\<^verbatim>\<open>_chunks_are_valid\<close>.\<close>

definition chunks_are_valid :: "(string \<times> string) list \<Rightarrow> bool" where
  "chunks_are_valid parsed_chunks =
     (if length parsed_chunks < 2 then False
      else list_all (\<lambda>(airline, aircraft). aircraft \<noteq> UNKNOWN) parsed_chunks)"

text \<open>\<^verbatim>\<open>_extract_aircraft_entries\<close>.\<close>

definition extract_aircraft_entries :: "string \<Rightarrow> (string \<times> string) list" where
  "extract_aircraft_entries clean_title =
     (let subject = extract_subject_segment clean_title
      in if subject = [] then [(UNKNOWN, UNKNOWN)]
         else
           let chunks = split_subject_chunks subject;
               parsed_chunks = map parse_subject_chunk chunks
           in if chunks \<noteq> [] \<and> chunks_are_valid parsed_chunks then parsed_chunks
              else [parse_subject_chunk (if subject \<noteq> [] then subject else clean_title)])"

text \<open>\<^verbatim>\<open>_build_variant_title\<close>.\<close>

definition build_variant_title :: "string \<Rightarrow> string \<Rightarrow> nat \<Rightarrow> string" where
  "build_variant_title original_title airline variant_index =
     (if variant_index = 0 then original_title
      else let suffix = (if airline \<noteq> UNKNOWN then airline
                         else ''#'' @ show_nat (variant_index + 1))
           in SECONDARY_TITLE_PREFIX @ '' '' @ suffix @ ''] '' @ original_title)"

section \<open>Dates\<close>

definition MONTH_ABBREVIATIONS :: "string list" where
  "MONTH_ABBREVIATIONS = [''Jan'', ''Feb'', ''Mar'', ''Apr'', ''May'', ''Jun'',
                          ''Jul'', ''Aug'', ''Sep'', ''Oct'', ''Nov'', ''Dec'']"

definition ORDINAL_SUFFIXES :: "string list" where
  "ORDINAL_SUFFIXES = [''st'', ''nd'', ''rd'', ''th'']"

text \<open>
  \<^verbatim>\<open>DATE_REGEX\<close>,
  \<^verbatim>\<open>(Jan|...|Dec)\s+\d{1,2}(?:st|nd|rd|th)\s+\d{4}\<close>, matched at the head of the
  text: the length of the match. Each \<^verbatim>\<open>\s+\<close> takes the whole run of whitespace and
  \<^verbatim>\<open>\d{1,2}\<close> the whole run of digits, which has one or two digits: after a shorter run
  comes a character of the same class, where the next part of the pattern does not match.
  The ordinal suffix is not optional.
\<close>

definition date_match :: "string \<Rightarrow> nat option" where
  "date_match s =
     (let month = take 3 s;
          r1 = drop 3 s;
          ws1 = takeWhile is_space r1;
          r2 = dropWhile is_space r1;
          day = takeWhile is_digit r2;
          r3 = dropWhile is_digit r2;
          suffix = take 2 r3;
          r4 = drop 2 r3;
          ws2 = takeWhile is_space r4;
          r5 = dropWhile is_space r4;
          year = take 4 r5
      in if month \<in> set MONTH_ABBREVIATIONS \<and> ws1 \<noteq> []
            \<and> (length day = 1 \<or> length day = 2)
            \<and> suffix \<in> set ORDINAL_SUFFIXES \<and> ws2 \<noteq> []
            \<and> length year = 4 \<and> list_all is_digit year
         then Some (3 + length ws1 + length day + 2 + length ws2 + 4)
         else None)"

text \<open>\<^verbatim>\<open>DATE_REGEX.search(text)\<close> and \<^verbatim>\<open>group(0)\<close>: the text of the first match.\<close>

fun date_search :: "string \<Rightarrow> string option" where
  "date_search [] = None"
| "date_search (c # cs) =
     (case date_match (c # cs) of
        Some n \<Rightarrow> Some (take n (c # cs))
      | None \<Rightarrow> date_search cs)"

text \<open>
  \<^verbatim>\<open>ORDINAL_SUFFIX_REGEX.sub("", text)\<close> with the pattern
  \<^verbatim>\<open>(?<=\d)(st|nd|rd|th)\<close>: a suffix is deleted where the character before it is a
  digit; \<open>prev\<close> is that character.
\<close>

fun ordinal_suffix_sub :: "char option \<Rightarrow> string \<Rightarrow> string" where
  "ordinal_suffix_sub prev (c # d # cs) =
     (if (case prev of None \<Rightarrow> False | Some b \<Rightarrow> is_digit b) \<and> [c, d] \<in> set ORDINAL_SUFFIXES
      then ordinal_suffix_sub (Some d) cs
      else c # ordinal_suffix_sub (Some c) (d # cs))"
| "ordinal_suffix_sub prev cs = cs"

text \<open>The value of a decimal numeral.\<close>

definition digit_value :: "char \<Rightarrow> nat" where
  "digit_value c = (case map_of (zip DIGITS [0 ..< 10]) c of Some v \<Rightarrow> v | None \<Rightarrow> 0)"

definition nat_of_digits :: "string \<Rightarrow> nat" where
  "nat_of_digits ds = foldl (\<lambda>acc c. 10 * acc + digit_value c) 0 ds"

definition isleap :: "nat \<Rightarrow> bool" where
  "isleap year = (year mod 4 = 0 \<and> (year mod 100 \<noteq> 0 \<or> year mod 400 = 0))"

text \<open>\<^verbatim>\<open>calendar.mdays[1:]\<close>.\<close>

definition MDAYS :: "nat list" where
  "MDAYS = [31, 28, 31, 30, 31, 30, 31, 31, 30, 31, 30, 31]"

definition days_in_month :: "nat \<Rightarrow> nat \<Rightarrow> nat" where
  "days_in_month year month =
     (if month = 2 \<and> isleap year then 29 else MDAYS ! (month - 1))"

definition month_number :: "string \<Rightarrow> nat option" where
  "month_number m = map_of (zip (map lower MONTH_ABBREVIATIONS) [1 ..< 13]) m"

text \<open>
  \<^verbatim>\<open>datetime.strptime(text, "%b %d %Y")\<close> of the standard library, \<open>None\<close> for its
  \<^verbatim>\<open>ValueError\<close>. The library matches the whole text against
  \<^verbatim>\<open>(?P<b>jan|...|dec)\s+(?P<d>3[0-1]|[1-2]\d|0[1-9]|[1-9]| [1-9])\s+(?P<Y>\d\d\d\d)\<close>
  without regard to case, and then builds the date, which fails for the year 0 and for a
  day the month does not have. The result is (year, month, day).
\<close>

definition strptime_b_d_Y :: "string \<Rightarrow> (nat \<times> nat \<times> nat) option" where
  "strptime_b_d_Y s =
     (let month = month_number (lower (take 3 s));
          r1 = drop 3 s;
          ws1 = takeWhile is_space r1;
          r2 = dropWhile is_space r1;
          day = takeWhile is_digit r2;
          r3 = dropWhile is_digit r2;
          ws2 = takeWhile is_space r3;
          year = dropWhile is_space r3
      in if month = None \<or> ws1 = [] \<or> \<not> (length day = 1 \<or> length day = 2)
            \<or> nat_of_digits day < 1 \<or> 31 < nat_of_digits day
            \<or> ws2 = [] \<or> length year \<noteq> 4 \<or> \<not> list_all is_digit year
         then None
         else if nat_of_digits year < 1
                 \<or> days_in_month (nat_of_digits year) (the month) < nat_of_digits day
         then None
         else Some (nat_of_digits year, the month, nat_of_digits day))"

text \<open>
  \<^verbatim>\<open>calendar.timegm\<close> of the time tuple of a date at midnight: the days since
  1970-01-01 (ordinal 719163), in seconds.
\<close>

definition toordinal_jan1 :: "nat \<Rightarrow> int" where
  "toordinal_jan1 year =
     (let y = int year - 1 in y * 365 + y div 4 - y div 100 + y div 400 + 1)"

definition timegm :: "nat \<Rightarrow> nat \<Rightarrow> nat \<Rightarrow> int" where
  "timegm year month day =
     (let days = toordinal_jan1 year - 719163
                 + int (sum_list (take (month - 1) MDAYS))
                 + (if month > 2 \<and> isleap year then 1 else 0)
                 + int day - 1
      in ((days * 24 + 0) * 60 + 0) * 60 + 0)"

text \<open>\<^verbatim>\<open>date_to_timestamp\<close>.\<close>

definition date_to_timestamp :: "string \<Rightarrow> int option" where
  "date_to_timestamp date_string =
     (if date_string = [] then None
      else let cleaned_date_string = ordinal_suffix_sub None date_string
           in case strptime_b_d_Y cleaned_date_string of
                Some (year, month, day) \<Rightarrow> Some (timegm year month day)
              | None \<Rightarrow> None)"

section \<open>Title processor\<close>

record parsed_entry =
  title :: string
  timestamp :: "int option"
  airline :: string
  aircraft :: string

text \<open>
  The first statements of \<^verbatim>\<open>process_title\<close>: the stripped title, and the text before
  its first comma.
\<close>

definition comma_cut :: "string \<Rightarrow> string" where
  "comma_cut stripped_title =
     (if CHR '','' \<in> set stripped_title
      then strip (takeWhile (\<lambda>c. c \<noteq> CHR '','') stripped_title)
      else stripped_title)"

text \<open>
  The date step of \<^verbatim>\<open>process_title\<close>: the timestamp and the text that is parsed for the
  subject (\<^verbatim>\<open>title_for_parsing\<close> after the step).
\<close>

definition date_step :: "string \<Rightarrow> int option \<times> string" where
  "date_step title_for_parsing =
     (case date_search title_for_parsing of
        Some date_str \<Rightarrow>
          (date_to_timestamp date_str,
           strip (replace_with_empty ('' on '' @ date_str) title_for_parsing))
      | None \<Rightarrow> (None, title_for_parsing))"

text \<open>The loop \<^verbatim>\<open>for idx, (airline, aircraft) in enumerate(pairs)\<close>.\<close>

fun build_entries ::
  "string \<Rightarrow> int option \<Rightarrow> nat \<Rightarrow> (string \<times> string) list \<Rightarrow> parsed_entry list" where
  "build_entries ttl ts idx [] = []"
| "build_entries ttl ts idx ((al, ac) # pairs) =
     \<lparr>title = build_variant_title ttl al idx, timestamp = ts, airline = al, aircraft = ac\<rparr>
       # build_entries ttl ts (Suc idx) pairs"

text \<open>\<^verbatim>\<open>process_title\<close>.\<close>

definition process_title :: "string \<Rightarrow> parsed_entry list" where
  "process_title original_title =
     (let stripped_title = strip original_title;
          (ts, title_for_parsing) = date_step (comma_cut stripped_title);
          pairs = extract_aircraft_entries title_for_parsing
      in build_entries stripped_title ts 0 pairs)"

section \<open>The words of the specification\<close>

text \<open>
  The specification's description of a catalog match, as a predicate of its own, to be
  compared with the iteration of the source: the first \<open>n\<close> tokens form a run of one to six
  tokens, every one of them non-empty after normalization, and the normalized keys of the
  run, concatenated, are a key of the catalog.
\<close>

definition run_matches :: "string list \<Rightarrow> nat \<Rightarrow> bool" where
  "run_matches tokens n =
     (1 \<le> n \<and> n \<le> AIRCRAFT_MODEL_MAX_TOKENS \<and> n \<le> length tokens
      \<and> (\<forall>t\<in>set (take n tokens). normalize_aircraft_token t \<noteq> [])
      \<and> in_model_lookup
          (concat (map (\<lambda>t. normalize_model_key (normalize_aircraft_token t))
                     (take n tokens))))"

text \<open>
  A token looks like a type code: what is left of it without the characters that are
  neither letters nor digits has at least three characters, a letter and a digit among
  them.
\<close>

definition looks_like_type_code :: "string \<Rightarrow> bool" where
  "looks_like_type_code token =
     (let residue = filter (\<lambda>c. is_alpha c \<or> is_digit c) token
      in 3 \<le> length residue \<and> (\<exists>c\<in>set residue. is_alpha c)
         \<and> (\<exists>c\<in>set residue. is_digit c))"

text \<open>A token is a stopword once normalized and in lower case.\<close>

definition is_stopword :: "string \<Rightarrow> bool" where
  "is_stopword token =
     (normalize_aircraft_token token \<noteq> []
      \<and> lower (normalize_aircraft_token token) \<in> set AIRCRAFT_STOPWORDS)"

text \<open>
  The test of one pass of the loop of \<^verbatim>\<open>_match_known_aircraft_tokens\<close>, on the
  normalized tokens: the segment of length \<open>n\<close> has no empty token and its key is
  in the catalog.
\<close>

definition segment_matches :: "string list \<Rightarrow> nat \<Rightarrow> bool" where
  "segment_matches san n =
     (list_all (\<lambda>t. t \<noteq> []) (take n san)
      \<and> in_model_lookup (normalize_model_key (join '' '' (take n san))))"

section \<open>Evaluation of the catalog\<close>

text \<open>
  The keys of the lookup table, computed once, so that a headline can be evaluated without
  normalizing the catalog again at every lookup.
\<close>

lemma AIRCRAFT_MODEL_KEYS_eval [code]: "AIRCRAFT_MODEL_KEYS = [
    ''a318'', ''a319'', ''a319neo'', ''a320'', ''a320neo'', ''a321'', ''a321neo'',
    ''a20n'', ''a21n'', ''a220'', ''a220100'', ''a220300'', ''a221'', ''a223'', ''a300'',
    ''a300600'', ''a306'', ''a310'', ''a330'', ''a330200'', ''a330300'', ''a330800'',
    ''a330900'', ''a332'', ''a333'', ''a338'', ''a339'', ''a340'', ''a340200'',
    ''a340300'', ''a340500'', ''a340600'', ''a342'', ''a343'', ''a345'', ''a346'',
    ''a350'', ''a350900'', ''a3501000'', ''a359'', ''a35k'', ''a380'', ''a380800'',
    ''a388'', ''b707'', ''b712'', ''b717'', ''b720'', ''b721'', ''b722'', ''b727'',
    ''b731'', ''b732'', ''b733'', ''b734'', ''b735'', ''b736'', ''b737'', ''b737200'',
    ''b737300'', ''b737400'', ''b737500'', ''b737600'', ''b737700'', ''b737800'',
    ''b737900'', ''b738'', ''b739'', ''b73h'', ''b73m'', ''b37m'', ''b38m'', ''b39m'',
    ''b741'', ''b742'', ''b743'', ''b744'', ''b747200'', ''b747300'', ''b747400'',
    ''b7478'', ''b748'', ''b752'', ''b753'', ''b757200'', ''b757300'', ''b762'', ''b763'',
    ''b764'', ''b767200'', ''b767300'', ''b767400'', ''b772'', ''b773'', ''b77l'',
    ''b77w'', ''b777200'', ''b777300'', ''b788'', ''b789'', ''b78x'', ''b7878'', ''b7879'',
    ''b78710'', ''dc8'', ''dc8'', ''dc9'', ''dc9'', ''dc10'', ''dc10'', ''md10'', ''md11'',
    ''md80'', ''md81'', ''md82'', ''md83'', ''md87'', ''md88'', ''md90'', ''erj135'',
    ''erj140'', ''erj145'', ''e135'', ''e140'', ''e145'', ''e170'', ''e175'', ''e190'',
    ''e195'', ''e170e2'', ''e190e2'', ''e195e2'', ''emb110'', ''emb110'', ''emb120'',
    ''emb120'', ''crj1'', ''crj2'', ''crj200'', ''crj7'', ''crj700'', ''crj9'', ''crj900'',
    ''crj10'', ''crj1000'', ''crjx'', ''dhc6'', ''dhc7'', ''dhc8'', ''dh8a'', ''dh8b'',
    ''dh8c'', ''dh8d'', ''q100'', ''q200'', ''q300'', ''q400'', ''atr42'', ''atr42'',
    ''atr42'', ''atr72'', ''atr72'', ''atr72'', ''at45'', ''at46'', ''at72'', ''at75'',
    ''at76'', ''f27'', ''f28'', ''f50'', ''f70'', ''f100'', ''bae146'', ''bae146'',
    ''rj70'', ''rj85'', ''rj100'', ''avrorj85'', ''avrorj100'', ''sf34'', ''saab340'',
    ''saab2000'', ''do228'', ''do328'', ''dornier228'', ''dornier328'', ''328jet'',
    ''sh33'', ''sh36'', ''short330'', ''short360'', ''be20'', ''be30'', ''be35'', ''be36'',
    ''be99'', ''b190'', ''b200'', ''c152'', ''c172'', ''c182'', ''c185'', ''c188'',
    ''c206'', ''c208'', ''c210'', ''c310'', ''c340'', ''c402'', ''c404'', ''c414'',
    ''c421'', ''c425'', ''c441'', ''pa23'', ''pa28'', ''pa31'', ''pa34'', ''pa42'',
    ''pa46'', ''pc6'', ''pc7'', ''pc9'', ''pc12'', ''pc12'', ''sr20'', ''sr22'', ''da40'',
    ''da42'', ''da62'', ''tbm700'', ''tbm700'', ''tbm850'', ''tbm900'', ''as350'',
    ''as355'', ''ec120'', ''ec130'', ''ec135'', ''ec145'', ''ec155'', ''ec175'', ''ec225'',
    ''bk117'', ''bo105'', ''b212'', ''b412'', ''b429'', ''s61'', ''s76'', ''s92'',
    ''aw109'', ''aw139'', ''aw169'', ''aw189'', ''uh60'', ''s70'', ''an2'', ''an12'',
    ''an24'', ''an26'', ''an28'', ''an30'', ''an32'', ''an72'', ''an124'', ''an140'',
    ''an148'', ''il18'', ''il62'', ''il76'', ''il86'', ''il96'', ''tu134'', ''tu154'',
    ''tu204'', ''yak40'', ''yak42'', ''superjet100'', ''ssj100'', ''ma60'', ''ma600'',
    ''arj21'', ''c919'', ''bn2'', ''bn2'', ''islander'', ''trislander'', ''js31'',
    ''js32'', ''js41'', ''l410'', ''let410'', ''metroiii'', ''metro23'', ''sw3'', ''sw4'',
    ''kingair'', ''twinotter'', ''grandcaravan'']"
  by code_simp

lemma in_model_lookup_keys [code]:
  "in_model_lookup key = (key \<in> set AIRCRAFT_MODEL_KEYS)"
  by (simp add: in_model_lookup_def AIRCRAFT_MODEL_LOOKUP_def AIRCRAFT_MODEL_KEYS_def
      map_of_eq_None_iff image_image)

text \<open>A headline of two aircraft, evaluated once for the witnesses below.\<close>

lemma process_title_two_aircraft:
  "process_title ''B738 & B737'' =
     [\<lparr>title = ''B738 & B737'', timestamp = None, airline = ''Unknown'',
       aircraft = ''B738''\<rparr>,
      \<lparr>title = SECONDARY_TITLE_PREFIX @ '' #2] B738 & B737'', timestamp = None,
       airline = ''Unknown'', aircraft = ''B737''\<rparr>]"
  by code_simp

lemma show_nat_2: "show_nat 2 = ''2''"
  by code_simp

section \<open>Date conversion\<close>

lemma date_to_timestamp_parse_failure:
  "strptime_b_d_Y (ordinal_suffix_sub None s) = None \<Longrightarrow> date_to_timestamp s = None"
  by (simp add: date_to_timestamp_def)

text \<open>
  C5: \<^verbatim>\<open>date_to_timestamp\<close> maps "Mar 31st 2025" to 1743379200 and "Jan 1st 2020" to
  1577836800, the seconds from the epoch to midnight UTC of the date; it returns
  \<^verbatim>\<open>None\<close> for the empty string, for "Not a date", and for every text that, once its
  ordinal suffixes are removed, is not parsed as a date of the format \<^verbatim>\<open>%b %d %Y\<close>.
\<close>

theorem date_to_timestamp_values:
  "date_to_timestamp ''Mar 31st 2025'' = Some 1743379200
   \<and> date_to_timestamp ''Jan 1st 2020'' = Some 1577836800
   \<and> date_to_timestamp ''Mar 31st 2025'' = Some (timegm 2025 3 31)
   \<and> date_to_timestamp ''Jan 1st 2020'' = Some (timegm 2020 1 1)
   \<and> date_to_timestamp [] = None
   \<and> date_to_timestamp ''Not a date'' = None
   \<and> (strptime_b_d_Y (ordinal_suffix_sub None s) = None \<longrightarrow> date_to_timestamp s = None)"
proof -
  have a: "date_to_timestamp ''Mar 31st 2025'' = Some 1743379200" by code_simp
  have b: "date_to_timestamp ''Jan 1st 2020'' = Some 1577836800" by code_simp
  have c: "timegm 2025 3 31 = 1743379200" by code_simp
  have d: "timegm 2020 1 1 = 1577836800" by code_simp
  have e: "date_to_timestamp [] = None" by (simp add: date_to_timestamp_def)
  have f: "date_to_timestamp ''Not a date'' = None" by code_simp
  have g: "strptime_b_d_Y (ordinal_suffix_sub None s) = None \<longrightarrow> date_to_timestamp s = None"
    by (rule impI) (rule date_to_timestamp_parse_failure)
  from a c have a': "date_to_timestamp ''Mar 31st 2025'' = Some (timegm 2025 3 31)"
    by (simp only:)
  from b d have b': "date_to_timestamp ''Jan 1st 2020'' = Some (timegm 2020 1 1)"
    by (simp only:)
  from a b a' b' e f g show ?thesis by (intro conjI)
qed

theorem date_to_timestamp_values_witness:
  "strptime_b_d_Y (ordinal_suffix_sub None ''Feb 30th 2025'') = None
   \<and> date_to_timestamp ''Feb 30th 2025'' = None"
proof -
  have h: "strptime_b_d_Y (ordinal_suffix_sub None ''Feb 30th 2025'') = None" by code_simp
  from date_to_timestamp_values [of "''Feb 30th 2025''"] h show ?thesis by blast
qed

section \<open>Titles of the entries\<close>

lemma build_entries_length: "length (build_entries t ts idx ps) = length ps"
  by (induction ps arbitrary: idx) auto

lemma build_entries_nth:
  "i < length ps \<Longrightarrow>
   build_entries t ts idx ps ! i =
     \<lparr>title = build_variant_title t (fst (ps ! i)) (idx + i), timestamp = ts,
      airline = fst (ps ! i), aircraft = snd (ps ! i)\<rparr>"
proof (induction ps arbitrary: idx i)
  case Nil
  then show ?case by simp
next
  case (Cons p ps)
  obtain al ac where p: "p = (al, ac)" by (cases p)
  show ?case
  proof (cases i)
    case 0
    then show ?thesis by (simp add: p)
  next
    case (Suc j)
    with Cons.prems have "j < length ps" by simp
    from Cons.IH [OF this, of "Suc idx"] show ?thesis by (simp add: p Suc)
  qed
qed

lemma extract_aircraft_entries_nonempty: "extract_aircraft_entries s \<noteq> []"
  by (simp add: extract_aircraft_entries_def Let_def)

lemma process_title_unfold:
  "process_title raw =
     build_entries (strip raw) (fst (date_step (comma_cut (strip raw)))) 0
       (extract_aircraft_entries (snd (date_step (comma_cut (strip raw)))))"
  by (simp add: process_title_def Let_def split: prod.splits)

lemma process_title_nonempty: "process_title raw \<noteq> []"
proof -
  have "length (process_title raw) =
        length (extract_aircraft_entries (snd (date_step (comma_cut (strip raw)))))"
    by (simp add: process_title_unfold build_entries_length)
  with extract_aircraft_entries_nonempty show ?thesis by (metis length_0_conv)
qed

lemma process_title_nth:
  assumes "i < length (process_title raw)"
  shows "title (process_title raw ! i) =
           build_variant_title (strip raw) (airline (process_title raw ! i)) i"
proof -
  let ?ps = "extract_aircraft_entries (snd (date_step (comma_cut (strip raw))))"
  from assms have i: "i < length ?ps"
    by (simp add: process_title_unfold build_entries_length)
  show ?thesis
    by (simp add: process_title_unfold build_entries_nth [OF i])
qed

lemma strip_chars_unchanged:
  "s \<noteq> [] \<Longrightarrow> hd s \<notin> set cs \<Longrightarrow> last s \<notin> set cs \<Longrightarrow> strip_chars cs s = s"
proof -
  assume s: "s \<noteq> []" and h: "hd s \<notin> set cs" and l: "last s \<notin> set cs"
  from h have a: "dropWhile (\<lambda>c. c \<in> set cs) s = s"
    by (simp add: dropWhile_eq_self_iff)
  from s l have b: "dropWhile (\<lambda>c. c \<in> set cs) (rev s) = rev s"
    by (simp add: dropWhile_eq_self_iff hd_rev)
  show ?thesis by (simp add: strip_chars_def a b)
qed

lemma build_variant_title_suffix: "suffix t (build_variant_title t al i)"
  by (simp add: build_variant_title_def Let_def suffix_def)

text \<open>
  C3, as the code has it: \<^verbatim>\<open>process_title\<close> always returns an entry, and the first
  entry carries the title stripped of surrounding whitespace, with its comma clause; that is
  the input itself when the input neither starts nor ends with whitespace. Every entry's
  title ends with the stripped title, so contains it, and the title at a position
  \<open>i > 0\<close> is the marker, a space, the airline (or \<open>#\<close> and \<open>i + 1\<close> when the
  airline is "Unknown"), a closing bracket, a space and the stripped title.
\<close>

theorem first_title_is_stripped_title:
  "process_title raw \<noteq> []
   \<and> title (hd (process_title raw)) = strip raw
   \<and> (raw \<noteq> [] \<and> \<not> is_space (hd raw) \<and> \<not> is_space (last raw)
        \<longrightarrow> title (hd (process_title raw)) = raw)
   \<and> (i < length (process_title raw)
        \<longrightarrow> suffix (strip raw) (title (process_title raw ! i))
            \<and> sublist (strip raw) (title (process_title raw ! i)))
   \<and> (0 < i \<and> i < length (process_title raw)
        \<longrightarrow> title (process_title raw ! i) =
              SECONDARY_TITLE_PREFIX @ '' ''
              @ (if airline (process_title raw ! i) \<noteq> UNKNOWN
                 then airline (process_title raw ! i) else ''#'' @ show_nat (i + 1))
              @ ''] '' @ strip raw)"
proof -
  have ne: "process_title raw \<noteq> []" by (rule process_title_nonempty)
  then have l0: "0 < length (process_title raw)" by simp
  have hd0: "title (hd (process_title raw)) = strip raw"
    using process_title_nth [OF l0] ne by (simp add: hd_conv_nth build_variant_title_def)
  have same: "raw \<noteq> [] \<and> \<not> is_space (hd raw) \<and> \<not> is_space (last raw)
        \<longrightarrow> title (hd (process_title raw)) = raw"
    using hd0 by (simp add: strip_def is_space_def strip_chars_unchanged)
  have suf: "i < length (process_title raw)
        \<longrightarrow> suffix (strip raw) (title (process_title raw ! i))
            \<and> sublist (strip raw) (title (process_title raw ! i))"
  proof
    assume i: "i < length (process_title raw)"
    have "suffix (strip raw) (title (process_title raw ! i))"
      by (simp add: process_title_nth [OF i] build_variant_title_suffix)
    then show "suffix (strip raw) (title (process_title raw ! i))
            \<and> sublist (strip raw) (title (process_title raw ! i))"
      by (simp add: suffix_imp_sublist)
  qed
  have sec: "0 < i \<and> i < length (process_title raw)
        \<longrightarrow> title (process_title raw ! i) =
              SECONDARY_TITLE_PREFIX @ '' ''
              @ (if airline (process_title raw ! i) \<noteq> UNKNOWN
                 then airline (process_title raw ! i) else ''#'' @ show_nat (i + 1))
              @ ''] '' @ strip raw"
  proof
    assume "0 < i \<and> i < length (process_title raw)"
    then have i: "i < length (process_title raw)" and p: "i \<noteq> 0" by simp_all
    show "title (process_title raw ! i) =
              SECONDARY_TITLE_PREFIX @ '' ''
              @ (if airline (process_title raw ! i) \<noteq> UNKNOWN
                 then airline (process_title raw ! i) else ''#'' @ show_nat (i + 1))
              @ ''] '' @ strip raw"
      using p by (simp add: process_title_nth [OF i] build_variant_title_def Let_def)
  qed
  from ne hd0 same suf sec show ?thesis by (intro conjI)
qed

theorem first_title_is_stripped_title_witness:
  "1 < length (process_title ''B738 & B737'')
   \<and> title (hd (process_title ''B738 & B737'')) = ''B738 & B737''
   \<and> title (process_title ''B738 & B737'' ! 1)
       = SECONDARY_TITLE_PREFIX @ '' #2] B738 & B737''"
proof -
  have st: "strip ''B738 & B737'' = ''B738 & B737''" by code_simp
  have sp: "\<not> is_space (hd ''B738 & B737'') \<and> \<not> is_space (last ''B738 & B737'')"
    by code_simp
  from first_title_is_stripped_title [of "''B738 & B737''" 1] st sp
  show ?thesis by (simp add: process_title_two_aircraft UNKNOWN_def show_nat_2)
qed

text \<open>
  The claim as stated, that the first entry carries the untrimmed input with its surrounding
  whitespace, fails for a headline with a leading space.
\<close>

theorem untrimmed_title_counterexample:
  "title (hd (process_title '' Unknown incident'')) \<noteq> '' Unknown incident''"
  by code_simp

section \<open>Secondary titles\<close>

lemma rstrip_prefix: "prefix (rev (dropWhile P (rev t))) t"
proof -
  have "rev t = takeWhile P (rev t) @ dropWhile P (rev t)" by simp
  then have "rev (rev t) = rev (takeWhile P (rev t) @ dropWhile P (rev t))"
    by (rule arg_cong)
  then have "t = rev (dropWhile P (rev t)) @ rev (takeWhile P (rev t))"
    by (simp only: rev_rev_ident rev_append)
  then show ?thesis by (rule prefixI)
qed

lemma strip_prefix_lstrip: "prefix (strip raw) (dropWhile is_space raw)"
proof -
  have eq: "dropWhile is_space raw = dropWhile (\<lambda>c. c \<in> set WHITESPACE) raw"
    by (rule arg_cong [where f = "\<lambda>p. dropWhile p raw"]) (simp add: fun_eq_iff is_space_def)
  show ?thesis unfolding strip_def strip_chars_def eq by (rule rstrip_prefix)
qed

text \<open>A headline that begins with a blank followed by the marker, evaluated once.\<close>

lemma process_title_marker_headline:
  "process_title ('' '' @ SECONDARY_TITLE_PREFIX @ '' B738 & B737'') =
     [\<lparr>title = SECONDARY_TITLE_PREFIX @ '' B738 & B737'', timestamp = None,
       airline = ''Unknown'', aircraft = SECONDARY_TITLE_PREFIX @ '' B738''\<rparr>,
      \<lparr>title = SECONDARY_TITLE_PREFIX @ '' #2] '' @ SECONDARY_TITLE_PREFIX @ '' B738 & B737'',
       timestamp = None, airline = ''Unknown'', aircraft = ''B737''\<rparr>]"
  by code_simp

lemma strip_marker_headline:
  "strip ('' '' @ SECONDARY_TITLE_PREFIX @ '' B738 & B737'')
   = SECONDARY_TITLE_PREFIX @ '' B738 & B737''"
  by code_simp

text \<open>
  C9, as the code has it: the prefix of a secondary title is the bracket followed by six
  bytes outside ASCII (the UTF-8 encoding of two CJK characters). In every headline, the
  title at a position \<open>i > 0\<close> is exactly this prefix, a space, the airline name (or \<open>#\<close>
  and \<open>i + 1\<close> when the airline is "Unknown"), the two characters \<open>] \<close> and the stripped
  original title, so it starts with the prefix and a space. The primary title is the
  headline stripped of surrounding whitespace: when it starts with the prefix and a space,
  the headline with its leading whitespace removed starts with them. The headline itself
  need not.
\<close>

theorem secondary_title_format:
  "SECONDARY_TITLE_PREFIX = [CHR ''['', CHR 0xE6, CHR 0xA0, CHR 0x87, CHR 0xE8, CHR 0xAE, CHR 0xB0]
   \<and> title (process_title raw ! 0) = strip raw
   \<and> (prefix (SECONDARY_TITLE_PREFIX @ '' '') (title (process_title raw ! 0))
        \<longrightarrow> prefix (SECONDARY_TITLE_PREFIX @ '' '') (dropWhile is_space raw))
   \<and> (0 < i \<and> i < length (process_title raw)
        \<longrightarrow> title (process_title raw ! i) =
              SECONDARY_TITLE_PREFIX @ '' ''
              @ (if airline (process_title raw ! i) \<noteq> ''Unknown''
                 then airline (process_title raw ! i) else ''#'' @ show_nat (i + 1))
              @ ''] '' @ strip raw
            \<and> prefix (SECONDARY_TITLE_PREFIX @ '' '') (title (process_title raw ! i)))"
proof -
  have l0: "0 < length (process_title raw)" using process_title_nonempty [of raw] by simp
  have t0: "title (process_title raw ! 0) = strip raw"
    using process_title_nth [OF l0] by (simp add: build_variant_title_def)
  have sec: "0 < i \<and> i < length (process_title raw)
        \<longrightarrow> title (process_title raw ! i) =
              SECONDARY_TITLE_PREFIX @ '' ''
              @ (if airline (process_title raw ! i) \<noteq> ''Unknown''
                 then airline (process_title raw ! i) else ''#'' @ show_nat (i + 1))
              @ ''] '' @ strip raw
            \<and> prefix (SECONDARY_TITLE_PREFIX @ '' '') (title (process_title raw ! i))"
  proof
    assume "0 < i \<and> i < length (process_title raw)"
    then have i: "i < length (process_title raw)" and p: "i \<noteq> 0" by simp_all
    have eq: "title (process_title raw ! i) =
              SECONDARY_TITLE_PREFIX @ '' ''
              @ (if airline (process_title raw ! i) \<noteq> ''Unknown''
                 then airline (process_title raw ! i) else ''#'' @ show_nat (i + 1))
              @ ''] '' @ strip raw"
      using p by (simp add: process_title_nth [OF i] build_variant_title_def Let_def UNKNOWN_def)
    have "prefix (SECONDARY_TITLE_PREFIX @ '' '') (title (process_title raw ! i))"
      by (subst eq) (simp add: prefix_def)
    with eq show "title (process_title raw ! i) =
              SECONDARY_TITLE_PREFIX @ '' ''
              @ (if airline (process_title raw ! i) \<noteq> ''Unknown''
                 then airline (process_title raw ! i) else ''#'' @ show_nat (i + 1))
              @ ''] '' @ strip raw
            \<and> prefix (SECONDARY_TITLE_PREFIX @ '' '') (title (process_title raw ! i))"
      by (rule conjI)
  qed
  have pre: "SECONDARY_TITLE_PREFIX = [CHR ''['', CHR 0xE6, CHR 0xA0, CHR 0x87, CHR 0xE8, CHR 0xAE, CHR 0xB0]"
    by (simp add: SECONDARY_TITLE_PREFIX_def)
  have prim: "prefix (SECONDARY_TITLE_PREFIX @ '' '') (title (process_title raw ! 0))
        \<longrightarrow> prefix (SECONDARY_TITLE_PREFIX @ '' '') (dropWhile is_space raw)"
  proof
    assume "prefix (SECONDARY_TITLE_PREFIX @ '' '') (title (process_title raw ! 0))"
    then have "prefix (SECONDARY_TITLE_PREFIX @ '' '') (strip raw)" by (simp only: t0)
    then obtain zs where zs: "strip raw = (SECONDARY_TITLE_PREFIX @ '' '') @ zs"
      by (rule prefixE)
    from strip_prefix_lstrip [of raw]
    obtain ws where ws: "dropWhile is_space raw = strip raw @ ws" by (rule prefixE)
    have "dropWhile is_space raw = (SECONDARY_TITLE_PREFIX @ '' '') @ (zs @ ws)"
      by (simp only: ws zs append_assoc)
    then show "prefix (SECONDARY_TITLE_PREFIX @ '' '') (dropWhile is_space raw)"
      by (rule prefixI)
  qed
  from pre t0 prim sec show ?thesis by (intro conjI)
qed

theorem secondary_title_format_witness:
  "(0::nat) < 1 \<and> 1 < length (process_title ''B738 & B737'')
   \<and> title (process_title ''B738 & B737'' ! 1)
       = [CHR ''['', CHR 0xE6, CHR 0xA0, CHR 0x87, CHR 0xE8, CHR 0xAE, CHR 0xB0]
         @ '' #2] B738 & B737''
   \<and> prefix ([CHR ''['', CHR 0xE6, CHR 0xA0, CHR 0x87, CHR 0xE8, CHR 0xAE, CHR 0xB0] @ '' '')
       (title (process_title ''B738 & B737'' ! 1))
   \<and> \<not> prefix ([CHR ''['', CHR 0xE6, CHR 0xA0, CHR 0x87, CHR 0xE8, CHR 0xAE, CHR 0xB0] @ '' '')
       (title (process_title ''B738 & B737'' ! 0))
   \<and> prefix (SECONDARY_TITLE_PREFIX @ '' '')
       (title (process_title ('' '' @ SECONDARY_TITLE_PREFIX @ '' B738 & B737'') ! 0))
   \<and> prefix (SECONDARY_TITLE_PREFIX @ '' '')
       (dropWhile is_space ('' '' @ SECONDARY_TITLE_PREFIX @ '' B738 & B737''))"
proof -
  have st: "strip ''B738 & B737'' = ''B738 & B737''" by code_simp
  have ls: "dropWhile is_space ''B738 & B737'' = ''B738 & B737''" by code_simp
  from secondary_title_format [of "''B738 & B737''" 1] st ls
  have A: "(0::nat) < 1 \<and> 1 < length (process_title ''B738 & B737'')
   \<and> title (process_title ''B738 & B737'' ! 1)
       = [CHR ''['', CHR 0xE6, CHR 0xA0, CHR 0x87, CHR 0xE8, CHR 0xAE, CHR 0xB0]
         @ '' #2] B738 & B737''
   \<and> prefix ([CHR ''['', CHR 0xE6, CHR 0xA0, CHR 0x87, CHR 0xE8, CHR 0xAE, CHR 0xB0] @ '' '')
       (title (process_title ''B738 & B737'' ! 1))
   \<and> \<not> prefix ([CHR ''['', CHR 0xE6, CHR 0xA0, CHR 0x87, CHR 0xE8, CHR 0xAE, CHR 0xB0] @ '' '')
       (title (process_title ''B738 & B737'' ! 0))"
    by (simp add: process_title_two_aircraft show_nat_2 SECONDARY_TITLE_PREFIX_def)
  note m = secondary_title_format [of "'' '' @ SECONDARY_TITLE_PREFIX @ '' B738 & B737''" 1]
  from m have t0: "title (process_title ('' '' @ SECONDARY_TITLE_PREFIX @ '' B738 & B737'') ! 0)
                   = strip ('' '' @ SECONDARY_TITLE_PREFIX @ '' B738 & B737'')"
    by (rule conjunct1 [OF conjunct2])
  have p0: "prefix (SECONDARY_TITLE_PREFIX @ '' '')
       (title (process_title ('' '' @ SECONDARY_TITLE_PREFIX @ '' B738 & B737'') ! 0))"
    by (simp only: t0 strip_marker_headline) simp
  from m have "prefix (SECONDARY_TITLE_PREFIX @ '' '')
       (title (process_title ('' '' @ SECONDARY_TITLE_PREFIX @ '' B738 & B737'') ! 0))
     \<longrightarrow> prefix (SECONDARY_TITLE_PREFIX @ '' '')
       (dropWhile is_space ('' '' @ SECONDARY_TITLE_PREFIX @ '' B738 & B737''))"
    by (rule conjunct1 [OF conjunct2 [OF conjunct2]])
  with p0 have B: "prefix (SECONDARY_TITLE_PREFIX @ '' '')
       (dropWhile is_space ('' '' @ SECONDARY_TITLE_PREFIX @ '' B738 & B737''))"
    by (rule rev_mp)
  from A p0 B show ?thesis by blast
qed

text \<open>
  The claim as stated, that no primary title starts with the marker unless the headline
  itself begins with it, fails for a headline of two aircraft that begins with a blank
  followed by the marker: the primary title starts with the marker and a space, the
  headline starts with a blank.
\<close>

theorem marker_headline_counterexample:
  "1 < length (process_title ('' '' @ SECONDARY_TITLE_PREFIX @ '' B738 & B737''))
   \<and> prefix (SECONDARY_TITLE_PREFIX @ '' '')
        (title (process_title ('' '' @ SECONDARY_TITLE_PREFIX @ '' B738 & B737'') ! 0))
   \<and> \<not> prefix (SECONDARY_TITLE_PREFIX @ '' '')
        ('' '' @ SECONDARY_TITLE_PREFIX @ '' B738 & B737'')"
  by (simp only: process_title_marker_headline) (simp add: SECONDARY_TITLE_PREFIX_def)

section \<open>Entries and subject chunks\<close>

lemma build_entries_pairs:
  "map (\<lambda>e. (airline e, aircraft e)) (build_entries t ts idx ps) = ps"
  by (induction ps arbitrary: idx) auto

lemma build_entries_timestamp:
  "e \<in> set (build_entries t ts idx ps) \<Longrightarrow> timestamp e = ts"
  by (induction ps arbitrary: idx) auto

lemma process_title_pairs:
  "map (\<lambda>e. (airline e, aircraft e)) (process_title raw) =
     extract_aircraft_entries (snd (date_step (comma_cut (strip raw))))"
  by (simp only: process_title_unfold build_entries_pairs)

lemma chunks_are_valid_iff:
  "chunks_are_valid (map parse_subject_chunk chunks) =
     (2 \<le> length chunks \<and> (\<forall>c\<in>set chunks. snd (parse_subject_chunk c) \<noteq> UNKNOWN))"
  by (auto simp add: chunks_are_valid_def list_all_iff split_beta)

lemma extract_aircraft_entries_cases:
  "extract_aircraft_entries w =
     (if extract_subject_segment w = [] then [(UNKNOWN, UNKNOWN)]
      else if 2 \<le> length (split_subject_chunks (extract_subject_segment w))
              \<and> (\<forall>c\<in>set (split_subject_chunks (extract_subject_segment w)).
                    snd (parse_subject_chunk c) \<noteq> UNKNOWN)
      then map parse_subject_chunk (split_subject_chunks (extract_subject_segment w))
      else [parse_subject_chunk (extract_subject_segment w)])"
  unfolding extract_aircraft_entries_def Let_def chunks_are_valid_iff
  by auto

text \<open>
  C2, as the code has it. With the working text left by the date step, its subject and the
  chunks of the subject: \<^verbatim>\<open>process_title\<close> produces one entry per chunk exactly when
  there are two or more chunks and each of them parses to an aircraft other than "Unknown";
  otherwise it produces one entry, parsed from the whole subject; and when the subject is
  empty it produces the single entry ("Unknown", "Unknown") and parses nothing.
\<close>

theorem entries_of_subject_chunks:
  "map (\<lambda>e. (airline e, aircraft e)) (process_title raw) =
     (let working_text = snd (date_step (comma_cut (strip raw)));
          subject = extract_subject_segment working_text;
          chunks = split_subject_chunks subject
      in if subject = [] then [(UNKNOWN, UNKNOWN)]
         else if 2 \<le> length chunks
                 \<and> (\<forall>c\<in>set chunks. snd (parse_subject_chunk c) \<noteq> UNKNOWN)
         then map parse_subject_chunk chunks
         else [parse_subject_chunk subject])"
  unfolding Let_def process_title_pairs
  by (rule extract_aircraft_entries_cases)

theorem entries_of_subject_chunks_witness:
  "split_subject_chunks
     (extract_subject_segment (snd (date_step (comma_cut (strip ''B738 & B737'')))))
     = [''B738'', ''B737'']
   \<and> snd (parse_subject_chunk ''B738'') \<noteq> UNKNOWN
   \<and> snd (parse_subject_chunk ''B737'') \<noteq> UNKNOWN
   \<and> map (\<lambda>e. (airline e, aircraft e)) (process_title ''B738 & B737'')
       = map parse_subject_chunk [''B738'', ''B737'']"
proof -
  have ch: "split_subject_chunks
     (extract_subject_segment (snd (date_step (comma_cut (strip ''B738 & B737'')))))
     = [''B738'', ''B737'']" by code_simp
  have su: "extract_subject_segment (snd (date_step (comma_cut (strip ''B738 & B737'')))) \<noteq> []"
    by code_simp
  have p1: "snd (parse_subject_chunk ''B738'') \<noteq> UNKNOWN" by code_simp
  have p2: "snd (parse_subject_chunk ''B737'') \<noteq> UNKNOWN" by code_simp
  from entries_of_subject_chunks [of "''B738 & B737''"] ch su p1 p2
  show ?thesis by (simp add: Let_def)
qed

text \<open>
  The claim as stated, that an empty subject makes the parser take the whole working text as
  the single chunk, fails for a headline that begins with a location preposition: the
  subject is empty, the working text is not, and the entry is ("Unknown", "Unknown") where
  parsing the working text gives the aircraft "at Berlin".
\<close>

theorem empty_subject_counterexample:
  "extract_subject_segment (snd (date_step (comma_cut (strip ''at Berlin'')))) = []
   \<and> snd (date_step (comma_cut (strip ''at Berlin''))) = ''at Berlin''
   \<and> map (\<lambda>e. (airline e, aircraft e)) (process_title ''at Berlin'')
       = [(''Unknown'', ''Unknown'')]
   \<and> parse_subject_chunk ''at Berlin'' = (''Unknown'', ''at Berlin'')
   \<and> map (\<lambda>e. (airline e, aircraft e)) (process_title ''at Berlin'')
       \<noteq> [parse_subject_chunk (snd (date_step (comma_cut (strip ''at Berlin''))))]"
  by code_simp

section \<open>The date step\<close>

lemma date_step_found:
  "date_search t = Some d \<Longrightarrow>
   date_step t = (date_to_timestamp d, strip (replace_with_empty ('' on '' @ d) t))"
  by (simp add: date_step_def)

lemma process_title_timestamp:
  "e \<in> set (process_title raw) \<Longrightarrow>
   timestamp e = fst (date_step (comma_cut (strip raw)))"
  by (simp only: process_title_unfold) (rule build_entries_timestamp)

text \<open>
  C4, as the code has it: when \<^verbatim>\<open>process_title\<close> finds a date phrase whose text does
  not parse as a date, the timestamp of every entry is \<^verbatim>\<open>None\<close>, and the text
  \<open>" on "\<close> followed by the matched date is removed from the working text all the same:
  the removal does not depend on the parse.
\<close>

theorem unparsable_date_is_removed:
  "date_search (comma_cut (strip raw)) = Some d \<and> date_to_timestamp d = None
   \<longrightarrow> (\<forall>e\<in>set (process_title raw). timestamp e = None)
       \<and> snd (date_step (comma_cut (strip raw)))
           = strip (replace_with_empty ('' on '' @ d) (comma_cut (strip raw)))
       \<and> process_title raw
           = build_entries (strip raw) None 0
               (extract_aircraft_entries
                  (strip (replace_with_empty ('' on '' @ d) (comma_cut (strip raw)))))"
proof
  assume a: "date_search (comma_cut (strip raw)) = Some d \<and> date_to_timestamp d = None"
  then have ds: "date_step (comma_cut (strip raw))
                 = (None, strip (replace_with_empty ('' on '' @ d) (comma_cut (strip raw))))"
    by (simp add: date_step_found)
  have 1: "\<forall>e\<in>set (process_title raw). timestamp e = None"
    using process_title_timestamp [of _ raw] by (simp add: ds)
  have 2: "snd (date_step (comma_cut (strip raw)))
           = strip (replace_with_empty ('' on '' @ d) (comma_cut (strip raw)))"
    by (simp add: ds)
  have 3: "process_title raw
           = build_entries (strip raw) None 0
               (extract_aircraft_entries
                  (strip (replace_with_empty ('' on '' @ d) (comma_cut (strip raw)))))"
    by (simp add: process_title_unfold ds)
  from 1 2 3 show "(\<forall>e\<in>set (process_title raw). timestamp e = None)
       \<and> snd (date_step (comma_cut (strip raw)))
           = strip (replace_with_empty ('' on '' @ d) (comma_cut (strip raw)))
       \<and> process_title raw
           = build_entries (strip raw) None 0
               (extract_aircraft_entries
                  (strip (replace_with_empty ('' on '' @ d) (comma_cut (strip raw)))))"
    by (intro conjI)
qed

theorem unparsable_date_is_removed_witness:
  "date_search (comma_cut (strip ''Foo on Feb 30th 2025'')) = Some ''Feb 30th 2025''
   \<and> date_to_timestamp ''Feb 30th 2025'' = None
   \<and> process_title ''Foo on Feb 30th 2025'' \<noteq> []
   \<and> timestamp (hd (process_title ''Foo on Feb 30th 2025'')) = None
   \<and> snd (date_step (comma_cut (strip ''Foo on Feb 30th 2025'')))
       = strip (replace_with_empty '' on Feb 30th 2025''
                  (comma_cut (strip ''Foo on Feb 30th 2025'')))"
proof -
  have a: "date_search (comma_cut (strip ''Foo on Feb 30th 2025'')) = Some ''Feb 30th 2025''"
    by code_simp
  have b: "date_to_timestamp ''Feb 30th 2025'' = None" by code_simp
  have ne: "process_title ''Foo on Feb 30th 2025'' \<noteq> []" by (rule process_title_nonempty)
  then have h: "hd (process_title ''Foo on Feb 30th 2025'')
                \<in> set (process_title ''Foo on Feb 30th 2025'')" by (rule hd_in_set)
  from unparsable_date_is_removed [of "''Foo on Feb 30th 2025''" "''Feb 30th 2025''"] a b
  have all: "\<forall>e\<in>set (process_title ''Foo on Feb 30th 2025''). timestamp e = None"
    and w: "snd (date_step (comma_cut (strip ''Foo on Feb 30th 2025'')))
       = strip (replace_with_empty ('' on '' @ ''Feb 30th 2025'')
                  (comma_cut (strip ''Foo on Feb 30th 2025'')))"
    by blast+
  from all h have t: "timestamp (hd (process_title ''Foo on Feb 30th 2025'')) = None" by blast
  from w have w': "snd (date_step (comma_cut (strip ''Foo on Feb 30th 2025'')))
       = strip (replace_with_empty '' on Feb 30th 2025''
                  (comma_cut (strip ''Foo on Feb 30th 2025'')))" by simp
  from a b ne t w' show ?thesis by (intro conjI)
qed

text \<open>
  The claim as stated, that the date text stays in the working text when it does not parse,
  fails for "Feb 30th": the pattern matches, the date does not exist, and the working text
  is "Foo".
\<close>

theorem unparsable_date_kept_counterexample:
  "date_search (comma_cut (strip ''Foo on Feb 30th 2025'')) = Some ''Feb 30th 2025''
   \<and> date_to_timestamp ''Feb 30th 2025'' = None
   \<and> comma_cut (strip ''Foo on Feb 30th 2025'') = ''Foo on Feb 30th 2025''
   \<and> snd (date_step (comma_cut (strip ''Foo on Feb 30th 2025''))) = ''Foo''
   \<and> map aircraft (process_title ''Foo on Feb 30th 2025'') = [''Foo'']"
  by code_simp

section \<open>Removal of the date phrase\<close>

lemma remove_from_absent: "\<not> occurs_in old s \<Longrightarrow> remove_from old s = s"
  by (induction s) auto

lemma prefix_append_long:
  "length ys \<le> length xs \<Longrightarrow> prefix ys (xs @ zs) = prefix ys xs"
  by (auto simp add: prefix_append)

lemma remove_from_first:
  "old \<noteq> [] \<Longrightarrow> (\<forall>i<length a. \<not> prefix old (drop i (a @ old))) \<Longrightarrow>
   remove_from old (a @ old @ b) = a @ remove_from old b"
proof (induction a)
  case Nil
  then obtain c cs where old: "old = c # cs" by (cases old) auto
  show ?case by (simp add: old)
next
  case (Cons x xs)
  from Cons.prems(2) have "\<not> prefix old (drop 0 ((x # xs) @ old))" by blast
  then have "\<not> prefix old ((x # xs) @ old)" by simp
  then have np: "\<not> prefix old (x # xs @ old @ b)"
    using prefix_append_long [of old "(x # xs) @ old" b] by simp
  have "\<forall>i<length xs. \<not> prefix old (drop i (xs @ old))"
  proof (intro allI impI)
    fix i assume "i < length xs"
    then have "Suc i < length (x # xs)" by simp
    with Cons.prems(2) have "\<not> prefix old (drop (Suc i) ((x # xs) @ old))" by blast
    then show "\<not> prefix old (drop i (xs @ old))" by simp
  qed
  with Cons.IH Cons.prems(1) have "remove_from old (xs @ old @ b) = xs @ remove_from old b"
    by blast
  with np show ?case by simp
qed

lemma rstrip_Cons:
  "rev (dropWhile P (rev (x # xs))) =
     (if rev (dropWhile P (rev xs)) = [] then (if P x then [] else [x])
      else x # rev (dropWhile P (rev xs)))"
  by (simp add: dropWhile_append dropWhile_eq_Nil_conv)

lemma rstrip_hd:
  assumes "rev (dropWhile P (rev xs)) \<noteq> []"
  shows "hd (rev (dropWhile P (rev xs))) = hd xs"
proof (cases xs)
  case Nil
  with assms show ?thesis by simp
next
  case (Cons y ys)
  from assms show ?thesis
    unfolding Cons rstrip_Cons by (auto split: if_splits)
qed

lemma strip_chars_idem: "strip_chars cs (strip_chars cs s) = strip_chars cs s"
proof -
  define P where "P = (\<lambda>c. c \<in> set cs)"
  define t where "t = dropWhile P s"
  define r where "r = rev (dropWhile P (rev t))"
  have r: "strip_chars cs s = r" by (simp add: strip_chars_def r_def t_def P_def)
  have front: "dropWhile P r = r"
  proof (cases "r = []")
    case True
    then show ?thesis by simp
  next
    case False
    then have rne: "rev (dropWhile P (rev t)) \<noteq> []" by (simp add: r_def)
    then have tne: "t \<noteq> []" by (cases t) simp_all
    then have "dropWhile P s \<noteq> []" by (simp add: t_def)
    then have "\<not> P (hd (dropWhile P s))" by (rule hd_dropWhile)
    then have np: "\<not> P (hd t)" by (simp add: t_def)
    from rstrip_hd [OF rne] have "hd r = hd t" by (simp add: r_def)
    with np have "\<not> P (hd r)" by simp
    with False show ?thesis by (cases r) simp_all
  qed
  have bk: "dropWhile P (rev r) = rev r" by (simp add: r_def)
  have "strip_chars cs r = rev (dropWhile P (rev (dropWhile P r)))"
    by (simp add: strip_chars_def P_def)
  also have "\<dots> = rev (dropWhile P (rev r))" by (simp only: front)
  also have "\<dots> = r" by (simp only: bk rev_rev_ident)
  finally show ?thesis by (simp only: r)
qed

lemma strip_idem: "strip (strip s) = strip s"
  by (simp only: strip_def strip_chars_idem)

lemma comma_cut_stripped: "strip (comma_cut (strip raw)) = comma_cut (strip raw)"
  by (simp add: comma_cut_def strip_idem)

text \<open>
  C10, as the code has it. When \<^verbatim>\<open>process_title\<close> finds a date phrase in the working
  text, the working text becomes the old one with \<open>" on "\<close> followed by the matched date
  replaced by nothing, stripped. The replacement is \<^verbatim>\<open>str.replace\<close>: behind the first
  occurrence it goes on with the rest of the text, so every occurrence met in one pass from
  the left is removed, not only the one at the match. When that text occurs nowhere in the
  working text, nothing is removed and the date stays in the working text that is parsed.
\<close>

theorem date_phrase_removal:
  "date_search (comma_cut (strip raw)) = Some d
   \<longrightarrow> snd (date_step (comma_cut (strip raw)))
         = strip (replace_with_empty ('' on '' @ d) (comma_cut (strip raw)))
       \<and> (\<forall>a b. (\<forall>i<length a. \<not> prefix ('' on '' @ d) (drop i (a @ '' on '' @ d)))
              \<longrightarrow> replace_with_empty ('' on '' @ d) (a @ ('' on '' @ d) @ b)
                    = a @ replace_with_empty ('' on '' @ d) b)
       \<and> (\<not> occurs_in ('' on '' @ d) (comma_cut (strip raw))
              \<longrightarrow> snd (date_step (comma_cut (strip raw))) = comma_cut (strip raw))"
proof
  assume ds: "date_search (comma_cut (strip raw)) = Some d"
  let ?t = "comma_cut (strip raw)"
  let ?old = "'' on '' @ d"
  have ne: "?old \<noteq> []" by simp
  have 1: "snd (date_step ?t) = strip (replace_with_empty ?old ?t)"
    using ds by (simp add: date_step_found)
  have 2: "\<forall>a b. (\<forall>i<length a. \<not> prefix ?old (drop i (a @ ?old)))
              \<longrightarrow> replace_with_empty ?old (a @ ?old @ b) = a @ replace_with_empty ?old b"
  proof (intro allI impI)
    fix a b
    assume "\<forall>i<length a. \<not> prefix ?old (drop i (a @ ?old))"
    with ne have "remove_from ?old (a @ ?old @ b) = a @ remove_from ?old b"
      by (rule remove_from_first)
    then show "replace_with_empty ?old (a @ ?old @ b) = a @ replace_with_empty ?old b"
      by (simp add: replace_with_empty_def)
  qed
  have 3: "\<not> occurs_in ?old ?t \<longrightarrow> snd (date_step ?t) = ?t"
  proof
    assume "\<not> occurs_in ?old ?t"
    then have "remove_from ?old ?t = ?t" by (rule remove_from_absent)
    then have "replace_with_empty ?old ?t = ?t" by (simp add: replace_with_empty_def)
    with 1 show "snd (date_step ?t) = ?t" by (simp only: comma_cut_stripped)
  qed
  from 1 2 3 show "snd (date_step ?t) = strip (replace_with_empty ?old ?t)
       \<and> (\<forall>a b. (\<forall>i<length a. \<not> prefix ?old (drop i (a @ ?old)))
              \<longrightarrow> replace_with_empty ?old (a @ ?old @ b) = a @ replace_with_empty ?old b)
       \<and> (\<not> occurs_in ?old ?t \<longrightarrow> snd (date_step ?t) = ?t)"
    by (intro conjI)
qed

theorem date_phrase_removal_witness:
  "date_search (comma_cut (strip ''A on Mar 1st 2025 on Mar 1st 2025'')) = Some ''Mar 1st 2025''
   \<and> snd (date_step (comma_cut (strip ''A on Mar 1st 2025 on Mar 1st 2025''))) = ''A''
   \<and> date_search (comma_cut (strip ''B738 Mar 1st 2025'')) = Some ''Mar 1st 2025''
   \<and> \<not> occurs_in '' on Mar 1st 2025'' (comma_cut (strip ''B738 Mar 1st 2025''))
   \<and> snd (date_step (comma_cut (strip ''B738 Mar 1st 2025''))) = ''B738 Mar 1st 2025''"
proof -
  have a: "date_search (comma_cut (strip ''A on Mar 1st 2025 on Mar 1st 2025''))
           = Some ''Mar 1st 2025''" by code_simp
  have b: "strip (replace_with_empty ('' on '' @ ''Mar 1st 2025'')
                    (comma_cut (strip ''A on Mar 1st 2025 on Mar 1st 2025''))) = ''A''"
    by code_simp
  have c: "date_search (comma_cut (strip ''B738 Mar 1st 2025'')) = Some ''Mar 1st 2025''"
    by code_simp
  have d: "\<not> occurs_in ('' on '' @ ''Mar 1st 2025'') (comma_cut (strip ''B738 Mar 1st 2025''))"
    by code_simp
  have e: "comma_cut (strip ''B738 Mar 1st 2025'') = ''B738 Mar 1st 2025''" by code_simp
  from date_phrase_removal [of "''A on Mar 1st 2025 on Mar 1st 2025''" "''Mar 1st 2025''"] a b
  have 1: "snd (date_step (comma_cut (strip ''A on Mar 1st 2025 on Mar 1st 2025''))) = ''A''"
    by simp
  from date_phrase_removal [of "''B738 Mar 1st 2025''" "''Mar 1st 2025''"] c d
  have "snd (date_step (comma_cut (strip ''B738 Mar 1st 2025'')))
        = comma_cut (strip ''B738 Mar 1st 2025'')" by blast
  with e have 2: "snd (date_step (comma_cut (strip ''B738 Mar 1st 2025''))) = ''B738 Mar 1st 2025''"
    by simp
  from d have d': "\<not> occurs_in '' on Mar 1st 2025'' (comma_cut (strip ''B738 Mar 1st 2025''))"
    by simp
  from a 1 c d' 2 show ?thesis by (intro conjI)
qed

text \<open>
  The claim as stated, that nothing is removed when the matched date phrase is not preceded
  by \<open>" on "\<close>, fails when the same date occurs again behind an \<open>" on "\<close>: here the
  pattern matches at the start of the text, where nothing precedes it, and the later
  occurrence is removed.
\<close>

theorem date_without_on_counterexample:
  "comma_cut (strip ''Mar 1st 2025 X on Mar 1st 2025'') = ''Mar 1st 2025 X on Mar 1st 2025''
   \<and> date_match ''Mar 1st 2025 X on Mar 1st 2025'' = Some 12
   \<and> date_search ''Mar 1st 2025 X on Mar 1st 2025'' = Some ''Mar 1st 2025''
   \<and> snd (date_step ''Mar 1st 2025 X on Mar 1st 2025'') = ''Mar 1st 2025 X''
   \<and> snd (date_step (comma_cut (strip ''Mar 1st 2025 X on Mar 1st 2025'')))
       \<noteq> comma_cut (strip ''Mar 1st 2025 X on Mar 1st 2025'')"
  by code_simp

section \<open>Fields of the entries\<close>

lemma strip_chars_nonempty:
  assumes "c \<in> set s" and "c \<notin> set cs"
  shows "strip_chars cs s \<noteq> []"
proof -
  define P where "P = (\<lambda>c. c \<in> set cs)"
  define t where "t = dropWhile P s"
  from assms have "\<exists>x\<in>set s. \<not> P x" by (auto simp add: P_def)
  then have tne: "t \<noteq> []" by (simp add: t_def dropWhile_eq_Nil_conv)
  then have "\<not> P (hd (dropWhile P s))" unfolding t_def by (rule hd_dropWhile)
  then have "\<not> P (hd t)" by (simp add: t_def)
  moreover from tne have "hd t \<in> set (rev t)" by simp
  ultimately have "\<exists>x\<in>set (rev t). \<not> P x" by blast
  then have "dropWhile P (rev t) \<noteq> []" by (simp add: dropWhile_eq_Nil_conv)
  then show ?thesis by (simp add: strip_chars_def t_def P_def)
qed

lemma split_ws_from_nonempty:
  "split_ws_from cur s \<noteq> [] \<Longrightarrow> cur \<noteq> [] \<or> (\<exists>c\<in>set s. \<not> is_space c)"
proof (induction s arbitrary: cur)
  case Nil
  then show ?case by (simp split: if_splits)
next
  case (Cons c cs)
  show ?case
  proof (cases "is_space c")
    case True
    show ?thesis
    proof (cases "cur = []")
      case True
      with \<open>is_space c\<close> Cons.prems have "split_ws_from [] cs \<noteq> []" by simp
      from Cons.IH [OF this] show ?thesis by simp
    next
      case False
      then show ?thesis by simp
    qed
  next
    case False
    then show ?thesis by auto
  qed
qed

lemma split_ws_strip: "split_ws s \<noteq> [] \<Longrightarrow> strip s \<noteq> []"
proof -
  assume "split_ws s \<noteq> []"
  then have "\<exists>c\<in>set s. \<not> is_space c"
    using split_ws_from_nonempty [of "[]" s] by (simp add: split_ws_def)
  then obtain c where "c \<in> set s" and "c \<notin> set WHITESPACE" by (auto simp add: is_space_def)
  then show ?thesis unfolding strip_def by (rule strip_chars_nonempty)
qed

lemma UNKNOWN_nonempty: "UNKNOWN \<noteq> []"
  by (simp add: UNKNOWN_def)

lemma aircraft_text_nonempty: "aircraft_text ts \<noteq> []"
  by (simp add: aircraft_text_def Let_def UNKNOWN_nonempty)

lemma parse_subject_chunk_nonempty:
  "fst (parse_subject_chunk chunk) \<noteq> [] \<and> snd (parse_subject_chunk chunk) \<noteq> []"
proof (cases "split_ws chunk = []")
  case True
  then show ?thesis by (simp add: parse_subject_chunk_def UNKNOWN_nonempty)
next
  case False
  then have st: "strip chunk \<noteq> []" by (rule split_ws_strip)
  show ?thesis
  proof (cases "find_aircraft_start_index (split_ws chunk)
                  (map normalize_aircraft_token (split_ws chunk))
                  (map lower (map normalize_aircraft_token (split_ws chunk)))")
    case None
    with False st show ?thesis
      by (simp add: parse_subject_chunk_def Let_def UNKNOWN_nonempty)
  next
    case (Some i)
    with False show ?thesis
      by (simp add: parse_subject_chunk_def Let_def UNKNOWN_nonempty aircraft_text_nonempty)
  qed
qed

lemma extract_aircraft_entries_fields:
  "p \<in> set (extract_aircraft_entries w) \<Longrightarrow> fst p \<noteq> [] \<and> snd p \<noteq> []"
  using parse_subject_chunk_nonempty
  by (auto simp add: extract_aircraft_entries_def Let_def UNKNOWN_nonempty split: if_splits)

text \<open>
  C1: for every input string, the empty one included, \<^verbatim>\<open>process_title\<close> returns at
  least one entry, and in every entry the airline and the aircraft are non-empty strings.
  The model is a total function: the one exception the parser can meet, the
  \<^verbatim>\<open>ValueError\<close> of \<^verbatim>\<open>strptime\<close>, is caught in \<^verbatim>\<open>date_to_timestamp\<close> and is
  the value \<open>None\<close> there.
\<close>

theorem entries_never_empty:
  "process_title raw \<noteq> []
   \<and> (\<forall>e\<in>set (process_title raw). airline e \<noteq> [] \<and> aircraft e \<noteq> [])"
proof (rule conjI)
  show "process_title raw \<noteq> []" by (rule process_title_nonempty)
  show "\<forall>e\<in>set (process_title raw). airline e \<noteq> [] \<and> aircraft e \<noteq> []"
  proof
    fix e assume "e \<in> set (process_title raw)"
    then have "(airline e, aircraft e)
               \<in> set (map (\<lambda>e. (airline e, aircraft e)) (process_title raw))"
      by (simp add: image_iff) blast
    then have "(airline e, aircraft e)
               \<in> set (extract_aircraft_entries (snd (date_step (comma_cut (strip raw)))))"
      by (simp only: process_title_pairs)
    from extract_aircraft_entries_fields [OF this]
    show "airline e \<noteq> [] \<and> aircraft e \<noteq> []" by simp
  qed
qed

theorem entries_never_empty_witness:
  "hd (process_title ''B738 & B737'') \<in> set (process_title ''B738 & B737'')
   \<and> airline (hd (process_title ''B738 & B737'')) \<noteq> []
   \<and> aircraft (hd (process_title ''B738 & B737'')) \<noteq> []
   \<and> map airline (process_title ''B738 & B737'') = [''Unknown'', ''Unknown'']
   \<and> map aircraft (process_title ''B738 & B737'') = [''B738'', ''B737'']"
proof -
  from entries_never_empty [of "''B738 & B737''"]
  have ne: "process_title ''B738 & B737'' \<noteq> []"
    and al: "\<forall>e\<in>set (process_title ''B738 & B737''). airline e \<noteq> [] \<and> aircraft e \<noteq> []"
    by blast+
  from ne have h: "hd (process_title ''B738 & B737'') \<in> set (process_title ''B738 & B737'')"
    by (rule hd_in_set)
  with al have f: "airline (hd (process_title ''B738 & B737'')) \<noteq> []
                 \<and> aircraft (hd (process_title ''B738 & B737'')) \<noteq> []" by blast
  have m: "map airline (process_title ''B738 & B737'') = [''Unknown'', ''Unknown'']
           \<and> map aircraft (process_title ''B738 & B737'') = [''B738'', ''B737'']"
    by (simp add: process_title_two_aircraft)
  from h f m show ?thesis by blast
qed

section \<open>Catalog matches\<close>

lemma normalize_model_key_append:
  "normalize_model_key (a @ b) = normalize_model_key a @ normalize_model_key b"
  by (simp add: normalize_model_key_def lower_def)

lemma normalize_model_key_space: "normalize_model_key '' '' = []"
  by (simp add: normalize_model_key_def lower_def lower_char_def UPPERCASE_def LOWERCASE_def
      is_lower_def is_digit_def DIGITS_def)

lemma normalize_model_key_Nil: "normalize_model_key [] = []"
  by (simp add: normalize_model_key_def lower_def)

lemma normalize_model_key_Cons_space:
  "normalize_model_key (CHR '' '' # s) = normalize_model_key s"
  using normalize_model_key_append [of "'' ''" s] by (simp add: normalize_model_key_space)

lemma normalize_model_key_join:
  "normalize_model_key (join '' '' xs) = concat (map normalize_model_key xs)"
  by (induction "'' ''" xs rule: join.induct)
     (simp_all add: normalize_model_key_append normalize_model_key_Nil
        normalize_model_key_Cons_space)

lemma match_known_from_Suc:
  "match_known_from raw san (Suc k) =
     (if segment_matches san (Suc k) then Some (take (Suc k) raw)
      else match_known_from raw san k)"
  by (simp add: segment_matches_def Let_def)

lemma match_known_from_None:
  "match_known_from raw san k = None \<longleftrightarrow> (\<forall>n. 1 \<le> n \<and> n \<le> k \<longrightarrow> \<not> segment_matches san n)"
proof (induction k)
  case 0
  then show ?case by simp
next
  case (Suc k)
  show ?case
  proof (cases "segment_matches san (Suc k)")
    case True
    then show ?thesis by (auto simp add: match_known_from_Suc simp del: match_known_from.simps)
  next
    case False
    then show ?thesis
      by (auto simp add: match_known_from_Suc Suc.IH le_Suc_eq simp del: match_known_from.simps)
  qed
qed

lemma match_known_from_Some:
  "match_known_from raw san k = Some r \<longleftrightarrow>
     (\<exists>n. 1 \<le> n \<and> n \<le> k \<and> segment_matches san n
          \<and> (\<forall>m. n < m \<and> m \<le> k \<longrightarrow> \<not> segment_matches san m) \<and> r = take n raw)"
proof (induction k)
  case 0
  then show ?case by simp
next
  case (Suc k)
  show ?case
  proof (cases "segment_matches san (Suc k)")
    case True
    have "match_known_from raw san (Suc k) = Some r \<longleftrightarrow> r = take (Suc k) raw"
      using True by (auto simp add: match_known_from_Suc simp del: match_known_from.simps)
    also have "\<dots> \<longleftrightarrow> (\<exists>n. 1 \<le> n \<and> n \<le> Suc k \<and> segment_matches san n
          \<and> (\<forall>m. n < m \<and> m \<le> Suc k \<longrightarrow> \<not> segment_matches san m) \<and> r = take n raw)"
    proof
      assume "r = take (Suc k) raw"
      with True show "\<exists>n. 1 \<le> n \<and> n \<le> Suc k \<and> segment_matches san n
          \<and> (\<forall>m. n < m \<and> m \<le> Suc k \<longrightarrow> \<not> segment_matches san m) \<and> r = take n raw"
        by (intro exI [of _ "Suc k"]) auto
    next
      assume "\<exists>n. 1 \<le> n \<and> n \<le> Suc k \<and> segment_matches san n
          \<and> (\<forall>m. n < m \<and> m \<le> Suc k \<longrightarrow> \<not> segment_matches san m) \<and> r = take n raw"
      then obtain n where n: "n \<le> Suc k"
        "\<forall>m. n < m \<and> m \<le> Suc k \<longrightarrow> \<not> segment_matches san m" "r = take n raw" by blast
      from n(1,2) True have "n = Suc k" by (metis le_neq_implies_less order_refl)
      with n(3) show "r = take (Suc k) raw" by simp
    qed
    finally show ?thesis .
  next
    case False
    have "match_known_from raw san (Suc k) = Some r \<longleftrightarrow> match_known_from raw san k = Some r"
      using False by (simp add: match_known_from_Suc del: match_known_from.simps)
    also have "\<dots> \<longleftrightarrow> (\<exists>n. 1 \<le> n \<and> n \<le> k \<and> segment_matches san n
          \<and> (\<forall>m. n < m \<and> m \<le> k \<longrightarrow> \<not> segment_matches san m) \<and> r = take n raw)"
      by (rule Suc.IH)
    also have "\<dots> \<longleftrightarrow> (\<exists>n. 1 \<le> n \<and> n \<le> Suc k \<and> segment_matches san n
          \<and> (\<forall>m. n < m \<and> m \<le> Suc k \<longrightarrow> \<not> segment_matches san m) \<and> r = take n raw)"
      using False by (metis le_Suc_eq)
    finally show ?thesis .
  qed
qed

lemma run_matches_segment:
  "run_matches tokens n \<longleftrightarrow>
     1 \<le> n \<and> n \<le> AIRCRAFT_MODEL_MAX_TOKENS \<and> n \<le> length tokens
     \<and> segment_matches (map normalize_aircraft_token tokens) n"
  by (simp add: run_matches_def segment_matches_def take_map list_all_iff
      normalize_model_key_join o_def)

lemma match_known_aircraft_tokens_None:
  "match_known_aircraft_tokens ts = None \<longleftrightarrow> (\<forall>n. \<not> run_matches ts n)"
  by (auto simp add: match_known_aircraft_tokens_def Let_def match_known_from_None
      run_matches_segment)

lemma match_known_aircraft_tokens_Some:
  "match_known_aircraft_tokens ts = Some r \<longleftrightarrow>
     (\<exists>n. run_matches ts n \<and> (\<forall>m. n < m \<longrightarrow> \<not> run_matches ts m) \<and> r = take n ts)"
proof -
  let ?san = "map normalize_aircraft_token ts"
  let ?k = "min (length ?san) AIRCRAFT_MODEL_MAX_TOKENS"
  have "match_known_aircraft_tokens ts = Some r \<longleftrightarrow>
        (\<exists>n. 1 \<le> n \<and> n \<le> ?k \<and> segment_matches ?san n
          \<and> (\<forall>m. n < m \<and> m \<le> ?k \<longrightarrow> \<not> segment_matches ?san m) \<and> r = take n ts)"
    by (simp add: match_known_aircraft_tokens_def Let_def match_known_from_Some)
  also have "\<dots> \<longleftrightarrow>
     (\<exists>n. run_matches ts n \<and> (\<forall>m. n < m \<longrightarrow> \<not> run_matches ts m) \<and> r = take n ts)"
  proof (intro iff_exI)
    fix n
    show "(1 \<le> n \<and> n \<le> ?k \<and> segment_matches ?san n
          \<and> (\<forall>m. n < m \<and> m \<le> ?k \<longrightarrow> \<not> segment_matches ?san m) \<and> r = take n ts)
        \<longleftrightarrow> (run_matches ts n \<and> (\<forall>m. n < m \<longrightarrow> \<not> run_matches ts m) \<and> r = take n ts)"
      unfolding run_matches_segment by (cases "1 \<le> n") auto
  qed
  finally show ?thesis .
qed

lemma run_matches_take_nonempty: "run_matches ts n \<Longrightarrow> take n ts \<noteq> []"
  by (cases ts) (auto simp add: run_matches_def)

lemma truthy_match_known:
  "truthy (match_known_aircraft_tokens ts) \<longleftrightarrow> (\<exists>n. run_matches ts n)"
proof (cases "match_known_aircraft_tokens ts")
  case None
  then show ?thesis by (simp add: truthy_def match_known_aircraft_tokens_None [symmetric])
next
  case (Some r)
  then obtain n where n: "run_matches ts n" "r = take n ts"
    by (auto simp add: match_known_aircraft_tokens_Some)
  with Some show ?thesis using run_matches_take_nonempty [of ts n] by (auto simp add: truthy_def)
qed

lemma trim_from_acc:
  "acc \<noteq> [] \<Longrightarrow> trim_from acc ts = acc @ takeWhile (\<lambda>t. \<not> is_stopword t) ts"
  by (induction ts arbitrary: acc) (auto simp add: Let_def is_stopword_def)

lemma trim_from_start:
  "trim_from [] (t # ts) = t # takeWhile (\<lambda>t. \<not> is_stopword t) ts"
  by (simp add: Let_def trim_from_acc)

lemma run_matches_length: "run_matches ts n \<Longrightarrow> 1 \<le> n \<and> n \<le> length ts"
  by (simp add: run_matches_def)

section \<open>Trimming of the aircraft tokens\<close>

text \<open>
  C8: for a non-empty token sequence, when a prefix of one to six tokens matches the
  catalog, \<^verbatim>\<open>_trim_aircraft_tokens\<close> returns the longest such prefix and nothing
  after it; when no prefix matches, it returns the first token followed by the tokens up
  to, and not including, the first later stopword, a result that is never empty; and
  when no later token is a stopword, it returns the sequence unchanged.
\<close>

theorem trim_aircraft_tokens_result:
  "ts \<noteq> [] \<longrightarrow>
     (\<forall>n. run_matches ts n \<and> (\<forall>m. n < m \<longrightarrow> \<not> run_matches ts m)
          \<longrightarrow> trim_aircraft_tokens ts = take n ts)
     \<and> ((\<forall>n. \<not> run_matches ts n)
          \<longrightarrow> trim_aircraft_tokens ts = hd ts # takeWhile (\<lambda>t. \<not> is_stopword t) (tl ts)
              \<and> trim_aircraft_tokens ts \<noteq> [])
     \<and> ((\<forall>n. \<not> run_matches ts n) \<and> (\<forall>t\<in>set (tl ts). \<not> is_stopword t)
          \<longrightarrow> trim_aircraft_tokens ts = ts)
     \<and> trim_aircraft_tokens ts \<noteq> []"
proof
  assume ne: "ts \<noteq> []"
  then obtain t ts' where ts: "ts = t # ts'" by (cases ts) auto
  have 1: "\<forall>n. run_matches ts n \<and> (\<forall>m. n < m \<longrightarrow> \<not> run_matches ts m)
          \<longrightarrow> trim_aircraft_tokens ts = take n ts"
  proof (intro allI impI)
    fix n assume a: "run_matches ts n \<and> (\<forall>m. n < m \<longrightarrow> \<not> run_matches ts m)"
    then have s: "match_known_aircraft_tokens ts = Some (take n ts)"
      by (auto simp add: match_known_aircraft_tokens_Some)
    from a have "truthy (match_known_aircraft_tokens ts)"
      by (auto simp add: truthy_match_known)
    with s ne show "trim_aircraft_tokens ts = take n ts"
      by (simp add: trim_aircraft_tokens_def Let_def)
  qed
  have 2: "(\<forall>n. \<not> run_matches ts n)
          \<longrightarrow> trim_aircraft_tokens ts = hd ts # takeWhile (\<lambda>t. \<not> is_stopword t) (tl ts)
              \<and> trim_aircraft_tokens ts \<noteq> []"
  proof
    assume "\<forall>n. \<not> run_matches ts n"
    then have "\<not> truthy (match_known_aircraft_tokens ts)" by (simp add: truthy_match_known)
    then have "trim_aircraft_tokens ts = hd ts # takeWhile (\<lambda>t. \<not> is_stopword t) (tl ts)"
      by (simp add: trim_aircraft_tokens_def Let_def ts trim_from_start
          del: trim_from.simps)
    then show "trim_aircraft_tokens ts = hd ts # takeWhile (\<lambda>t. \<not> is_stopword t) (tl ts)
              \<and> trim_aircraft_tokens ts \<noteq> []" by simp
  qed
  have 3: "(\<forall>n. \<not> run_matches ts n) \<and> (\<forall>t\<in>set (tl ts). \<not> is_stopword t)
          \<longrightarrow> trim_aircraft_tokens ts = ts"
  proof
    assume a: "(\<forall>n. \<not> run_matches ts n) \<and> (\<forall>t\<in>set (tl ts). \<not> is_stopword t)"
    then have "takeWhile (\<lambda>t. \<not> is_stopword t) (tl ts) = tl ts"
      by (simp add: takeWhile_eq_all_conv)
    with a 2 ne show "trim_aircraft_tokens ts = ts" by simp
  qed
  have 4: "trim_aircraft_tokens ts \<noteq> []"
  proof (cases "\<exists>n. run_matches ts n")
    case True
    then have tr: "truthy (match_known_aircraft_tokens ts)" by (simp add: truthy_match_known)
    then obtain r where r: "match_known_aircraft_tokens ts = Some r" "r \<noteq> []"
      by (auto simp add: truthy_def split: option.splits)
    with tr ne show ?thesis by (simp add: trim_aircraft_tokens_def Let_def)
  next
    case False
    with 2 show ?thesis by blast
  qed
  from 1 2 3 4 show "(\<forall>n. run_matches ts n \<and> (\<forall>m. n < m \<longrightarrow> \<not> run_matches ts m)
          \<longrightarrow> trim_aircraft_tokens ts = take n ts)
     \<and> ((\<forall>n. \<not> run_matches ts n)
          \<longrightarrow> trim_aircraft_tokens ts = hd ts # takeWhile (\<lambda>t. \<not> is_stopword t) (tl ts)
              \<and> trim_aircraft_tokens ts \<noteq> [])
     \<and> ((\<forall>n. \<not> run_matches ts n) \<and> (\<forall>t\<in>set (tl ts). \<not> is_stopword t)
          \<longrightarrow> trim_aircraft_tokens ts = ts)
     \<and> trim_aircraft_tokens ts \<noteq> []"
    by (intro conjI)
qed

theorem trim_aircraft_tokens_result_witness:
  "trim_aircraft_tokens [''B738'', ''near''] = [''B738'']
   \<and> trim_aircraft_tokens [''jet'', ''near'', ''x''] = [''jet'']
   \<and> trim_aircraft_tokens [''jet'', ''x''] = [''jet'', ''x'']"
proof -
  have a1: "run_matches [''B738'', ''near''] 1" by code_simp
  have a2: "\<not> run_matches [''B738'', ''near''] 2" by code_simp
  have a3: "\<forall>m. 1 < m \<longrightarrow> \<not> run_matches [''B738'', ''near''] m"
  proof (intro allI impI notI)
    fix m :: nat
    assume "1 < m" and r: "run_matches [''B738'', ''near''] m"
    from run_matches_length [OF r] have "m \<le> 2" by simp
    with \<open>1 < m\<close> have "m = 2" by simp
    with r a2 show False by simp
  qed
  from trim_aircraft_tokens_result [of "[''B738'', ''near'']"] a1 a3
  have A: "trim_aircraft_tokens [''B738'', ''near''] = take 1 [''B738'', ''near'']"
    by blast
  have b1: "\<not> run_matches [''jet'', ''near'', ''x''] 1" by code_simp
  have b2: "\<not> run_matches [''jet'', ''near'', ''x''] 2" by code_simp
  have b3: "\<not> run_matches [''jet'', ''near'', ''x''] 3" by code_simp
  have b4: "\<forall>n. \<not> run_matches [''jet'', ''near'', ''x''] n"
  proof (intro allI notI)
    fix n :: nat
    assume r: "run_matches [''jet'', ''near'', ''x''] n"
    from run_matches_length [OF r] have "n = 1 \<or> n = 2 \<or> n = 3" by auto
    with r b1 b2 b3 show False by blast
  qed
  have b5: "is_stopword ''near''" by code_simp
  from trim_aircraft_tokens_result [of "[''jet'', ''near'', ''x'']"] b4
  have "trim_aircraft_tokens [''jet'', ''near'', ''x'']
        = hd [''jet'', ''near'', ''x'']
          # takeWhile (\<lambda>t. \<not> is_stopword t) (tl [''jet'', ''near'', ''x''])"
    by blast
  with b5 have B: "trim_aircraft_tokens [''jet'', ''near'', ''x''] = [''jet'']" by simp
  have c1: "\<not> run_matches [''jet'', ''x''] 1" by code_simp
  have c2: "\<not> run_matches [''jet'', ''x''] 2" by code_simp
  have c3: "\<forall>n. \<not> run_matches [''jet'', ''x''] n"
  proof (intro allI notI)
    fix n :: nat
    assume r: "run_matches [''jet'', ''x''] n"
    from run_matches_length [OF r] have "n = 1 \<or> n = 2" by auto
    with r c1 c2 show False by blast
  qed
  have c4: "\<not> is_stopword ''x''" by code_simp
  then have c5: "\<forall>t\<in>set (tl [''jet'', ''x'']). \<not> is_stopword t" by simp
  from trim_aircraft_tokens_result [of "[''jet'', ''x'']"] c3 c5
  have C: "trim_aircraft_tokens [''jet'', ''x''] = [''jet'', ''x'']" by blast
  from A B C show ?thesis by simp
qed

section \<open>Detection of the aircraft boundary\<close>

subsection \<open>Scans from left to right\<close>

lemma scan_None:
  assumes nil: "\<And>k. f k [] = None"
    and cons: "\<And>k t ts. f k (t # ts) = (if Q (t # ts) then Some k else f (Suc k) ts)"
  shows "f k ts = None \<longleftrightarrow> (\<forall>j<length ts. \<not> Q (drop j ts))"
proof (induction ts arbitrary: k)
  case Nil
  show ?case by (simp add: nil)
next
  case (Cons t ts)
  have "(\<forall>j<length (t # ts). \<not> Q (drop j (t # ts)))
        \<longleftrightarrow> \<not> Q (t # ts) \<and> (\<forall>j<length ts. \<not> Q (drop j ts))"
    by (simp add: All_less_Suc2)
  with Cons.IH [of "Suc k"] show ?case by (simp add: cons)
qed

lemma scan_Some:
  assumes nil: "\<And>k. f k [] = None"
    and cons: "\<And>k t ts. f k (t # ts) = (if Q (t # ts) then Some k else f (Suc k) ts)"
  shows "f k ts = Some i \<longleftrightarrow>
         (\<exists>j. i = k + j \<and> j < length ts \<and> Q (drop j ts) \<and> (\<forall>j'<j. \<not> Q (drop j' ts)))"
proof (induction ts arbitrary: k)
  case Nil
  show ?case by (simp add: nil)
next
  case (Cons t ts)
  show ?case
  proof (cases "Q (t # ts)")
    case True
    have "(\<exists>j. i = k + j \<and> j < length (t # ts) \<and> Q (drop j (t # ts))
              \<and> (\<forall>j'<j. \<not> Q (drop j' (t # ts)))) \<longleftrightarrow> i = k"
    proof
      assume "\<exists>j. i = k + j \<and> j < length (t # ts) \<and> Q (drop j (t # ts))
              \<and> (\<forall>j'<j. \<not> Q (drop j' (t # ts)))"
      then obtain j where j: "i = k + j" "\<forall>j'<j. \<not> Q (drop j' (t # ts))" by blast
      have "j = 0"
      proof (rule ccontr)
        assume "j \<noteq> 0"
        then have "0 < j" by simp
        with j(2) have "\<not> Q (drop 0 (t # ts))" by blast
        with True show False by simp
      qed
      with j(1) show "i = k" by simp
    next
      assume "i = k"
      with True show "\<exists>j. i = k + j \<and> j < length (t # ts) \<and> Q (drop j (t # ts))
              \<and> (\<forall>j'<j. \<not> Q (drop j' (t # ts)))"
        by (intro exI [of _ 0]) simp
    qed
    with True show ?thesis by (auto simp add: cons)
  next
    case False
    have "f k (t # ts) = Some i \<longleftrightarrow> f (Suc k) ts = Some i"
      using False by (simp add: cons)
    also have "\<dots> \<longleftrightarrow> (\<exists>j. i = Suc k + j \<and> j < length ts \<and> Q (drop j ts)
                    \<and> (\<forall>j'<j. \<not> Q (drop j' ts)))"
      by (rule Cons.IH)
    also have "\<dots> \<longleftrightarrow> (\<exists>j. i = k + j \<and> j < length (t # ts) \<and> Q (drop j (t # ts))
              \<and> (\<forall>j'<j. \<not> Q (drop j' (t # ts))))" (is "?A \<longleftrightarrow> ?B")
    proof
      assume ?A
      then obtain j where j: "i = Suc k + j" "j < length ts" "Q (drop j ts)"
        "\<forall>j'<j. \<not> Q (drop j' ts)" by blast
      have "\<forall>j'<Suc j. \<not> Q (drop j' (t # ts))"
        using j(4) False by (simp add: All_less_Suc2)
      with j(1,2,3) show ?B by (intro exI [of _ "Suc j"]) simp
    next
      assume ?B
      then obtain j where j: "i = k + j" "j < length (t # ts)" "Q (drop j (t # ts))"
        "\<forall>j'<j. \<not> Q (drop j' (t # ts))" by blast
      from j(3) False have "j \<noteq> 0" by (cases j) auto
      then obtain j0 where j0: "j = Suc j0" by (cases j) auto
      from j(4) have "\<forall>j'<j0. \<not> Q (drop j' ts)"
        unfolding j0 by (simp add: All_less_Suc2)
      with j(1,2,3) show ?A unfolding j0 by (intro exI [of _ j0]) simp
    qed
    finally show ?thesis .
  qed
qed

lemma find_model_from_Some:
  "find_model_from k ts = Some i \<longleftrightarrow>
     (\<exists>j. i = k + j \<and> j < length ts \<and> (\<exists>n. run_matches (drop j ts) n)
          \<and> (\<forall>j'<j. \<not> (\<exists>n. run_matches (drop j' ts) n)))"
  by (rule scan_Some [where Q = "\<lambda>ts. \<exists>n. run_matches ts n"])
     (simp_all add: truthy_match_known)

lemma find_model_from_None:
  "find_model_from k ts = None \<longleftrightarrow> (\<forall>j<length ts. \<not> (\<exists>n. run_matches (drop j ts) n))"
  by (rule scan_None [where Q = "\<lambda>ts. \<exists>n. run_matches ts n"])
     (simp_all add: truthy_match_known)

lemma find_aircraft_start_by_model_Some:
  "find_aircraft_start_by_model raw = Some i \<longleftrightarrow>
     i < length raw \<and> (\<exists>n. run_matches (drop i raw) n)
     \<and> (\<forall>j<i. \<not> (\<exists>n. run_matches (drop j raw) n))"
  by (auto simp add: find_aircraft_start_by_model_def find_model_from_Some)

lemma find_aircraft_start_by_model_None:
  "find_aircraft_start_by_model raw = None \<longleftrightarrow> (\<forall>j n. \<not> run_matches (drop j raw) n)"
proof -
  have "\<not> run_matches (drop j raw) n" if "\<not> j < length raw" for j n
    using that run_matches_length [of "drop j raw" n] by auto
  then show ?thesis
    unfolding find_aircraft_start_by_model_def find_model_from_None by blast
qed

lemma empty_not_keyword: "[] \<notin> set AIRCRAFT_KEYWORDS"
  by (simp add: AIRCRAFT_KEYWORDS_def)

lemma token_matches_aircraft_words:
  "token_matches_aircraft token \<longleftrightarrow>
     lower token \<in> set AIRCRAFT_KEYWORDS \<or> looks_like_type_code token"
proof (cases "token = []")
  case True
  then show ?thesis
    using empty_not_keyword
    by (simp add: token_matches_aircraft_def looks_like_type_code_def lower_def)
next
  case False
  then show ?thesis
    by (auto simp add: token_matches_aircraft_def looks_like_type_code_def Let_def
        list_ex_iff)
qed

lemma find_keyword_from_Some:
  "find_keyword_from k ts = Some i \<longleftrightarrow>
     (\<exists>j. i = k + j \<and> j < length ts \<and> token_matches_aircraft (ts ! j)
          \<and> (\<forall>j'<j. \<not> token_matches_aircraft (ts ! j')))"
proof -
  have "find_keyword_from k ts = Some i \<longleftrightarrow>
     (\<exists>j. i = k + j \<and> j < length ts \<and> token_matches_aircraft (hd (drop j ts))
          \<and> (\<forall>j'<j. \<not> token_matches_aircraft (hd (drop j' ts))))"
    by (rule scan_Some [where Q = "\<lambda>ts. token_matches_aircraft (hd ts)"]) simp_all
  also have "\<dots> \<longleftrightarrow> (\<exists>j. i = k + j \<and> j < length ts \<and> token_matches_aircraft (ts ! j)
          \<and> (\<forall>j'<j. \<not> token_matches_aircraft (ts ! j')))"
    by (intro iff_exI) (auto simp add: hd_drop_conv_nth)
  finally show ?thesis .
qed

lemma find_keyword_from_None:
  "find_keyword_from k ts = None \<longleftrightarrow> (\<forall>t\<in>set ts. \<not> token_matches_aircraft t)"
  by (induction ts arbitrary: k) auto

lemma filter_dropWhile_disjoint:
  "(\<And>c. Q c \<Longrightarrow> \<not> P c) \<Longrightarrow> filter P (dropWhile Q xs) = filter P xs"
  by (induction xs) auto

lemma filter_strip_chars:
  assumes "\<And>c. c \<in> set cs \<Longrightarrow> \<not> P c"
  shows "filter P (strip_chars cs s) = filter P s"
proof -
  have d: "filter P (dropWhile (\<lambda>c. c \<in> set cs) xs) = filter P xs" for xs
    by (rule filter_dropWhile_disjoint) (rule assms)
  show ?thesis
    by (simp only: strip_chars_def rev_filter [symmetric] d rev_rev_ident)
qed

lemma strip_chars_not_alphanumeric:
  "c \<in> set TOKEN_STRIP_CHARS \<Longrightarrow> \<not> (is_alpha c \<or> is_digit c)"
proof -
  have "\<forall>c\<in>set TOKEN_STRIP_CHARS. \<not> (is_alpha c \<or> is_digit c)" by code_simp
  then show "c \<in> set TOKEN_STRIP_CHARS \<Longrightarrow> \<not> (is_alpha c \<or> is_digit c)" by blast
qed

lemma looks_like_type_code_normalized:
  "looks_like_type_code (normalize_aircraft_token token) = looks_like_type_code token"
  using filter_strip_chars [of TOKEN_STRIP_CHARS "\<lambda>c. is_alpha c \<or> is_digit c" token]
    strip_chars_not_alphanumeric
  by (simp add: looks_like_type_code_def normalize_aircraft_token_def)

lemma keyword_scan_raw:
  "find_keyword_from 0 (map normalize_aircraft_token raw) = Some i \<longleftrightarrow>
        i < length raw
        \<and> (lower (normalize_aircraft_token (raw ! i)) \<in> set AIRCRAFT_KEYWORDS
           \<or> looks_like_type_code (raw ! i))
        \<and> (\<forall>j<i. \<not> (lower (normalize_aircraft_token (raw ! j)) \<in> set AIRCRAFT_KEYWORDS
                      \<or> looks_like_type_code (raw ! j)))"
  unfolding find_keyword_from_Some token_matches_aircraft_words
  by (auto simp add: looks_like_type_code_normalized)

text \<open>
  C6: the boundary detector returns the result of the known-model scan when that scan
  finds an index, otherwise the result of the multi-word descriptor scan when that one
  finds an index, otherwise the result of the keyword scan.  The known-model scan returns
  the index \<open>i\<close> exactly when \<open>i\<close> is the least index at which a run of one to six tokens
  matches the catalog in the words of the specification (\<open>run_matches\<close>), and it returns
  nothing exactly when no index has such a run; at an index, the match is the longest
  matching run.  The keyword scan returns the least index of a token that is a keyword in
  lower case or looks like a type code, and nothing exactly when there is no such token.
  The keyword scan reads the normalized tokens; on the normalized tokens of \<open>raw\<close>, as
  \<^verbatim>\<open>_parse_subject_chunk\<close> calls it, the index is the least one of a raw token whose
  normalized lower-case form is a keyword or whose own alphanumeric residue is that of a
  type code.
\<close>

theorem aircraft_boundary_detector:
  "(find_aircraft_start_by_model raw \<noteq> None \<longrightarrow>
      find_aircraft_start_index raw stripped lowered = find_aircraft_start_by_model raw)
   \<and> (find_aircraft_start_by_model raw = None
        \<and> find_multiword AIRCRAFT_MULTIWORD_PATTERNS lowered \<noteq> None \<longrightarrow>
      find_aircraft_start_index raw stripped lowered
        = find_multiword AIRCRAFT_MULTIWORD_PATTERNS lowered)
   \<and> (find_aircraft_start_by_model raw = None
        \<and> find_multiword AIRCRAFT_MULTIWORD_PATTERNS lowered = None \<longrightarrow>
      find_aircraft_start_index raw stripped lowered = find_keyword_from 0 stripped)
   \<and> (find_aircraft_start_by_model raw = Some i \<longleftrightarrow>
        i < length raw \<and> (\<exists>n. run_matches (drop i raw) n)
        \<and> (\<forall>j<i. \<not> (\<exists>n. run_matches (drop j raw) n)))
   \<and> (find_aircraft_start_by_model raw = None \<longleftrightarrow>
        (\<forall>j n. \<not> run_matches (drop j raw) n))
   \<and> (match_known_aircraft_tokens (drop i raw) = Some r \<longleftrightarrow>
        (\<exists>n. run_matches (drop i raw) n \<and> (\<forall>m. n < m \<longrightarrow> \<not> run_matches (drop i raw) m)
             \<and> r = take n (drop i raw)))
   \<and> (find_keyword_from 0 stripped = Some i \<longleftrightarrow>
        i < length stripped
        \<and> (lower (stripped ! i) \<in> set AIRCRAFT_KEYWORDS \<or> looks_like_type_code (stripped ! i))
        \<and> (\<forall>j<i. \<not> (lower (stripped ! j) \<in> set AIRCRAFT_KEYWORDS
                      \<or> looks_like_type_code (stripped ! j))))
   \<and> (find_keyword_from 0 stripped = None \<longleftrightarrow>
        (\<forall>t\<in>set stripped. \<not> (lower t \<in> set AIRCRAFT_KEYWORDS \<or> looks_like_type_code t)))
   \<and> (find_keyword_from 0 (map normalize_aircraft_token raw) = Some i \<longleftrightarrow>
        i < length raw
        \<and> (lower (normalize_aircraft_token (raw ! i)) \<in> set AIRCRAFT_KEYWORDS
           \<or> looks_like_type_code (raw ! i))
        \<and> (\<forall>j<i. \<not> (lower (normalize_aircraft_token (raw ! j)) \<in> set AIRCRAFT_KEYWORDS
                      \<or> looks_like_type_code (raw ! j))))"
proof -
  have 1: "find_aircraft_start_by_model raw \<noteq> None \<longrightarrow>
      find_aircraft_start_index raw stripped lowered = find_aircraft_start_by_model raw"
    by (auto simp add: find_aircraft_start_index_def)
  have 2: "find_aircraft_start_by_model raw = None
        \<and> find_multiword AIRCRAFT_MULTIWORD_PATTERNS lowered \<noteq> None \<longrightarrow>
      find_aircraft_start_index raw stripped lowered
        = find_multiword AIRCRAFT_MULTIWORD_PATTERNS lowered"
    by (auto simp add: find_aircraft_start_index_def)
  have 3: "find_aircraft_start_by_model raw = None
        \<and> find_multiword AIRCRAFT_MULTIWORD_PATTERNS lowered = None \<longrightarrow>
      find_aircraft_start_index raw stripped lowered = find_keyword_from 0 stripped"
    by (auto simp add: find_aircraft_start_index_def)
  note 4 = find_aircraft_start_by_model_Some [of raw i]
  note 5 = find_aircraft_start_by_model_None [of raw]
  note 6 = match_known_aircraft_tokens_Some [of "drop i raw" r]
  have 7: "find_keyword_from 0 stripped = Some i \<longleftrightarrow>
        i < length stripped
        \<and> (lower (stripped ! i) \<in> set AIRCRAFT_KEYWORDS \<or> looks_like_type_code (stripped ! i))
        \<and> (\<forall>j<i. \<not> (lower (stripped ! j) \<in> set AIRCRAFT_KEYWORDS
                      \<or> looks_like_type_code (stripped ! j)))"
    unfolding find_keyword_from_Some token_matches_aircraft_words by auto
  have 8: "find_keyword_from 0 stripped = None \<longleftrightarrow>
        (\<forall>t\<in>set stripped. \<not> (lower t \<in> set AIRCRAFT_KEYWORDS \<or> looks_like_type_code t))"
    unfolding find_keyword_from_None token_matches_aircraft_words ..
  note 9 = keyword_scan_raw [of raw i]
  from 1 2 3 4 5 6 7 8 9 show ?thesis by (intro conjI)
qed

theorem aircraft_boundary_detector_witness:
  "find_aircraft_start_index [''Air'', ''B738''] [''Air'', ''B738''] [''air'', ''b738'']
     = Some 1
   \<and> \<not> run_matches [''Air'', ''B738''] 1 \<and> \<not> run_matches [''Air'', ''B738''] 2
   \<and> find_aircraft_start_index [''Boeing'', ''britten'', ''norman'']
       [''Boeing'', ''britten'', ''norman''] [''boeing'', ''britten'', ''norman''] = Some 1
   \<and> find_keyword_from 0 [''Boeing'', ''britten'', ''norman''] = Some 0
   \<and> find_aircraft_start_index [''Air'', ''XY12''] [''Air'', ''XY12''] [''air'', ''xy12'']
       = Some 1
   \<and> lower ''Air'' \<notin> set AIRCRAFT_KEYWORDS \<and> \<not> looks_like_type_code ''Air''"
proof -
  note tA = aircraft_boundary_detector [where raw = "[''Air'', ''B738'']"
      and stripped = "[''Air'', ''B738'']" and lowered = "[''air'', ''b738'']" and i = 1]
  have mA: "find_aircraft_start_by_model [''Air'', ''B738''] = Some 1" by code_simp
  from tA [THEN conjunct1] mA
  have A1: "find_aircraft_start_index [''Air'', ''B738''] [''Air'', ''B738'']
              [''air'', ''b738''] = Some 1" by simp
  from tA [THEN conjunct2, THEN conjunct2, THEN conjunct2, THEN conjunct1] mA
  have "\<forall>j<1. \<not> (\<exists>n. run_matches (drop j [''Air'', ''B738'']) n)" by blast
  then have "\<not> (\<exists>n. run_matches (drop 0 [''Air'', ''B738'']) n)" by blast
  then have A2: "\<not> run_matches [''Air'', ''B738''] 1 \<and> \<not> run_matches [''Air'', ''B738''] 2"
    by simp
  note tB = aircraft_boundary_detector [where raw = "[''Boeing'', ''britten'', ''norman'']"
      and stripped = "[''Boeing'', ''britten'', ''norman'']"
      and lowered = "[''boeing'', ''britten'', ''norman'']"]
  have mB: "find_aircraft_start_by_model [''Boeing'', ''britten'', ''norman''] = None"
    by code_simp
  have wB: "find_multiword AIRCRAFT_MULTIWORD_PATTERNS [''boeing'', ''britten'', ''norman'']
            = Some 1" by code_simp
  from tB [THEN conjunct2, THEN conjunct1] mB wB
  have B1: "find_aircraft_start_index [''Boeing'', ''britten'', ''norman'']
       [''Boeing'', ''britten'', ''norman''] [''boeing'', ''britten'', ''norman''] = Some 1"
    by simp
  have B2: "find_keyword_from 0 [''Boeing'', ''britten'', ''norman''] = Some 0"
    by code_simp
  note tC = aircraft_boundary_detector [where raw = "[''Air'', ''XY12'']"
      and stripped = "[''Air'', ''XY12'']" and lowered = "[''air'', ''xy12'']" and i = 1]
  have mC: "find_aircraft_start_by_model [''Air'', ''XY12''] = None" by code_simp
  have wC: "find_multiword AIRCRAFT_MULTIWORD_PATTERNS [''air'', ''xy12''] = None"
    by code_simp
  have kC: "find_keyword_from 0 [''Air'', ''XY12''] = Some 1" by code_simp
  from tC [THEN conjunct2, THEN conjunct2, THEN conjunct1] mC wC kC
  have C1: "find_aircraft_start_index [''Air'', ''XY12''] [''Air'', ''XY12'']
              [''air'', ''xy12''] = Some 1" by simp
  from tC [THEN conjunct2, THEN conjunct2, THEN conjunct2, THEN conjunct2, THEN conjunct2,
      THEN conjunct2, THEN conjunct1] kC
  have "\<forall>j<1. \<not> (lower ([''Air'', ''XY12''] ! j) \<in> set AIRCRAFT_KEYWORDS
                      \<or> looks_like_type_code ([''Air'', ''XY12''] ! j))" by blast
  then have "\<not> (lower ([''Air'', ''XY12''] ! 0) \<in> set AIRCRAFT_KEYWORDS
                      \<or> looks_like_type_code ([''Air'', ''XY12''] ! 0))" by blast
  then have C2: "lower ''Air'' \<notin> set AIRCRAFT_KEYWORDS \<and> \<not> looks_like_type_code ''Air''"
    by simp
  from A1 A2 B1 B2 C1 C2 show ?thesis by (intro conjI) blast+
qed

section \<open>Parsing of a subject chunk\<close>







end
